theory Spec2Isabelle
  imports Main "HOL-Library.Word" "HOL-Library.Log_Nat"
begin

unbundle bit_operations_syntax

section \<open>Shadow memory and the build environment\<close>

text \<open>
  The model covers \<^verbatim>\<open>asan_poisoning.h\<close> on a 64-bit target that is not Fuchsia:
  \<^verbatim>\<open>uptr\<close> is a 64-bit word, \<^verbatim>\<open>u8\<close> a byte and \<^verbatim>\<open>int\<close> has 32 bits. The shadow
  memory is a function from shadow addresses to bytes; the two inline functions take
  it and return it updated.
\<close>

type_synonym uptr = "64 word"
type_synonym u8 = "8 word"
type_synonym shadow = "uptr \<Rightarrow> u8"

text \<open>
  What the header reads from its surroundings: whether \<^verbatim>\<open>DCHECK\<close> is compiled in,
  the value \<^verbatim>\<open>CanPoisonMemory()\<close> returns, the flag \<^verbatim>\<open>flags()->poison_partial\<close>, and
  the two mapping constants \<^verbatim>\<open>ASAN_SHADOW_SCALE\<close> and \<^verbatim>\<open>ASAN_SHADOW_OFFSET\<close>.
\<close>

record env =
  sanitizer_debug :: bool
  can_poison_memory :: bool
  poison_partial :: bool
  shadow_scale :: nat
  shadow_offset :: uptr

text \<open>
  The ways a call can end without a final shadow state: a failed \<^verbatim>\<open>DCHECK\<close>, and a
  left shift of the \<^verbatim>\<open>int\<close> constant 1 by 32 or more positions, which C++ leaves
  undefined.
\<close>

datatype error = CheckFailed | ShiftUndefined

text \<open>
  Modelled from the spec: \<^verbatim>\<open>ASAN_SHADOW_GRANULARITY\<close> and \<^verbatim>\<open>MEM_TO_SHADOW\<close> are
  macros of \<^verbatim>\<open>asan_mapping.h\<close>, which is not among the sources. The granule size is the
  power of two \<open>2 ^ scale\<close>, and the address translation is the fixed-ratio map of
  section 4.1: the address shifted right by the scale, plus the shadow offset.
\<close>

definition ASAN_SHADOW_GRANULARITY :: "env \<Rightarrow> uptr" where
  "ASAN_SHADOW_GRANULARITY e = push_bit (shadow_scale e) 1"

definition MEM_TO_SHADOW :: "env \<Rightarrow> uptr \<Rightarrow> uptr" where
  "MEM_TO_SHADOW e mem = drop_bit (shadow_scale e) mem + shadow_offset e"

text \<open>
  Modelled from the spec: \<^verbatim>\<open>DCHECK\<close> is a macro of \<^verbatim>\<open>sanitizer_common\<close>, which is not
  among the sources. Section 7: the check happens only in debug/assertion builds,
  where a failure is fatal; optimized builds do not evaluate it.
\<close>

definition DCHECK :: "env \<Rightarrow> bool \<Rightarrow> bool" where
  "DCHECK e cond = (if sanitizer_debug e then cond else True)"

text \<open>
  \<^verbatim>\<open>REAL(memset)(p, v, n)\<close> stores \<open>v\<close> into the \<open>n\<close> bytes at \<open>p, p + 1, ...\<close>;
  address arithmetic is modulo \<open>2 ^ 64\<close>.
\<close>

definition real_memset :: "shadow \<Rightarrow> uptr \<Rightarrow> u8 \<Rightarrow> uptr \<Rightarrow> shadow" where
  "real_memset sh p v n = (\<lambda>a. if a - p < n then v else sh a)"

text \<open>
  \<^verbatim>\<open>1 << k\<close> with the \<^verbatim>\<open>int\<close> literal 1 and \<open>k\<close> of type \<^verbatim>\<open>uptr\<close>: the result has type
  \<^verbatim>\<open>int\<close>. For \<open>k \<ge> 32\<close> the behaviour is undefined. For \<open>k = 31\<close> the result is
  the most negative \<^verbatim>\<open>int\<close>. Both uses in the source convert the result to \<^verbatim>\<open>uptr\<close>
  (an operand of \<^verbatim>\<open>uptr\<close> arithmetic, the length argument of \<^verbatim>\<open>memset\<close>), which
  sign-extends; the conversion is part of this function.
\<close>

definition int_shl1 :: "uptr \<Rightarrow> uptr option" where
  "int_shl1 k =
     (if k < 32 then Some (scast (push_bit (unat k) (1 :: 32 word))) else None)"

section \<open>FastPoisonShadow\<close>

text \<open>
  The \<^verbatim>\<open>switch (N)\<close> of the zero branch, with \<open>p = shadow_end\<close>. The \<^verbatim>\<open>default\<close>
  label shares the statements of \<^verbatim>\<open>case 7\<close>.
\<close>

definition FastPoisonShadow_switch :: "uptr \<Rightarrow> uptr \<Rightarrow> shadow \<Rightarrow> shadow" where
  "FastPoisonShadow_switch N p sh =
     (if N = 0 then sh
      else if N = 1 then sh(p - 1 := 64)
      else if N = 2 then sh(p - 2 := 63, p - 1 := 64)
      else if N = 3 then sh(p - 3 := 63, p - 2 := 63, p - 1 := 64)
      else if N = 4 then sh(p - 4 := 62, p - 3 := 63, p - 2 := 63, p - 1 := 64)
      else if N = 5 then
        sh(p - 5 := 62, p - 4 := 62, p - 3 := 63, p - 2 := 63, p - 1 := 64)
      else if N = 6 then
        sh(p - 6 := 62, p - 5 := 62, p - 4 := 62, p - 3 := 63, p - 2 := 63, p - 1 := 64)
      else
        sh(p - 7 := 62, p - 6 := 62, p - 5 := 62, p - 4 := 62, p - 3 := 63, p - 2 := 63,
           p - 1 := 64))"

text \<open>
  The loop \<^verbatim>\<open>for (uptr i = 3; ; ++i)\<close>. The value argument \<^verbatim>\<open>64 - i\<close> of \<^verbatim>\<open>memset\<close>
  is converted to a byte.
\<close>

function FastPoisonShadow_loop :: "uptr \<Rightarrow> uptr \<Rightarrow> uptr \<Rightarrow> shadow \<Rightarrow> error + shadow" where
  "FastPoisonShadow_loop shadow_beg shadow_end i sh =
     (case int_shl1 (i + 1) of
        None \<Rightarrow> Inl ShiftUndefined
      | Some s1 \<Rightarrow>
          let bBegin = shadow_end - s1 + 1 in
          if bBegin \<le> shadow_beg then
            (case int_shl1 i of
               None \<Rightarrow> Inl ShiftUndefined
             | Some s0 \<Rightarrow>
                 let bEnd = shadow_end - s0 + 1 in
                 Inr (real_memset sh shadow_beg (ucast (64 - i)) (bEnd - shadow_beg)))
          else
            (case int_shl1 i of
               None \<Rightarrow> Inl ShiftUndefined
             | Some s0 \<Rightarrow>
                 FastPoisonShadow_loop shadow_beg shadow_end (i + 1)
                   (real_memset sh bBegin (ucast (64 - i)) s0)))"
  by pat_completeness auto
termination
proof (relation "measure (\<lambda>(shadow_beg, shadow_end, i, sh). 32 - unat i)")
  show "wf (measure (\<lambda>(shadow_beg, shadow_end, i, sh). 32 - unat i))" by simp
next
  fix shadow_beg shadow_end i :: uptr and sh :: shadow and s1 bBegin s0
  assume "int_shl1 (i + 1) = Some s1" and "int_shl1 i = Some s0"
  then have a: "i + 1 < 32" and b: "i < 32"
    by (auto simp: int_shl1_def split: if_splits)
  from b have "unat i < 32" by (simp add: word_less_nat_alt)
  moreover from this have "unat (i + 1) = unat i + 1"
    by (simp add: unat_word_ariths)
  ultimately show "((shadow_beg, shadow_end, i + 1, real_memset sh bBegin (ucast (64 - i)) s0),
      (shadow_beg, shadow_end, i, sh)) \<in> measure (\<lambda>(shadow_beg, shadow_end, i, sh). 32 - unat i)"
    by simp
qed

definition FastPoisonShadow :: "env \<Rightarrow> uptr \<Rightarrow> uptr \<Rightarrow> u8 \<Rightarrow> shadow \<Rightarrow> error + shadow" where
  "FastPoisonShadow e aligned_beg aligned_size value sh =
     (if \<not> DCHECK e (value = 0 \<or> can_poison_memory e) then Inl CheckFailed
      else
        let shadow_beg = MEM_TO_SHADOW e aligned_beg;
            shadow_end =
              MEM_TO_SHADOW e (aligned_beg + aligned_size - ASAN_SHADOW_GRANULARITY e) + 1
        in
          if value \<noteq> 0 then
            let value' = (if value \<le> 7 then 72 - value else value)
            in Inr (real_memset sh shadow_beg value' (shadow_end - shadow_beg))
          else
            let p = shadow_end;
                N = shadow_end - shadow_beg;
                sh1 = FastPoisonShadow_switch N p sh
            in if N \<ge> 8 then FastPoisonShadow_loop shadow_beg shadow_end 3 sh1
               else Inr sh1)"

section \<open>FastPoisonShadowPartialRightRedzone\<close>

text \<open>The byte one iteration of the loop stores, at granule offset \<open>i\<close>; \<open>sz\<close> is
  the source's parameter \<^verbatim>\<open>size\<close>.\<close>

definition redzone_byte :: "env \<Rightarrow> uptr \<Rightarrow> u8 \<Rightarrow> uptr \<Rightarrow> u8" where
  "redzone_byte e sz value i =
     (if i + ASAN_SHADOW_GRANULARITY e \<le> sz then 0
      else if i \<ge> sz then
        (if ASAN_SHADOW_GRANULARITY e = 128 then 0xff else value)
      else
        (if poison_partial e
         then ucast (ASAN_SHADOW_GRANULARITY e - (sz AND (ASAN_SHADOW_GRANULARITY e - 1)))
         else 0))"

text \<open>
  The loop \<^verbatim>\<open>for (uptr i = 0; i < redzone_size; i += ASAN_SHADOW_GRANULARITY, shadow++)\<close>.
  The counter wraps around when \<open>redzone_size\<close> is within one granule of \<open>2 ^ 64\<close>,
  and then the loop does not end: the result \<open>None\<close>.
\<close>

partial_function (option) FastPoisonShadowPartialRightRedzone_loop ::
  "env \<Rightarrow> uptr \<Rightarrow> uptr \<Rightarrow> u8 \<Rightarrow> uptr \<Rightarrow> uptr \<Rightarrow> shadow \<Rightarrow> shadow option" where
  "FastPoisonShadowPartialRightRedzone_loop e sz redzone_size value i shadow_ptr sh =
     (if i < redzone_size then
        FastPoisonShadowPartialRightRedzone_loop e sz redzone_size value
          (i + ASAN_SHADOW_GRANULARITY e) (shadow_ptr + 1)
          (sh(shadow_ptr := redzone_byte e sz value i))
      else Some sh)"

definition FastPoisonShadowPartialRightRedzone ::
  "env \<Rightarrow> uptr \<Rightarrow> uptr \<Rightarrow> uptr \<Rightarrow> u8 \<Rightarrow> shadow \<Rightarrow> (error + shadow) option" where
  "FastPoisonShadowPartialRightRedzone e aligned_addr sz redzone_size value sh =
     (if \<not> DCHECK e (can_poison_memory e) then Some (Inl CheckFailed)
      else map_option Inr
        (FastPoisonShadowPartialRightRedzone_loop e sz redzone_size value 0
           (MEM_TO_SHADOW e aligned_addr) sh))"

section \<open>Ranges, granules and observations\<close>

text \<open>
  The two shadow addresses \<^verbatim>\<open>FastPoisonShadow\<close> computes first: \<^verbatim>\<open>shadow_beg\<close> and
  \<^verbatim>\<open>shadow_end\<close>, as functions of the arguments.
\<close>

definition shadow_beg_of :: "env \<Rightarrow> uptr \<Rightarrow> uptr" where
  "shadow_beg_of e addr = MEM_TO_SHADOW e addr"

definition shadow_end_of :: "env \<Rightarrow> uptr \<Rightarrow> uptr \<Rightarrow> uptr" where
  "shadow_end_of e addr sz = MEM_TO_SHADOW e (addr + sz - ASAN_SHADOW_GRANULARITY e) + 1"

text \<open>The number of granules in \<open>sz\<close> bytes: \<open>size / G\<close>.\<close>

definition granules :: "env \<Rightarrow> uptr \<Rightarrow> nat" where
  "granules e sz = unat sz div 2 ^ shadow_scale e"

text \<open>
  A granule-aligned range \<open>(addr, sz)\<close>: the granule size \<open>2 ^ scale\<close> is a value of
  \<^verbatim>\<open>uptr\<close>, address and size are multiples of it, and the range
  \<open>[addr, addr + sz)\<close> lies within the 64-bit address space.
\<close>

definition aligned_range :: "env \<Rightarrow> uptr \<Rightarrow> uptr \<Rightarrow> bool" where
  "aligned_range e addr sz \<longleftrightarrow>
     shadow_scale e < 64 \<and> 2 ^ shadow_scale e dvd unat addr \<and> 2 ^ shadow_scale e dvd unat sz \<and>
     unat addr + unat sz \<le> 2 ^ 64"

text \<open>
  The shadow of the range lies within the address space, at least its own length above
  address 0. The loop of the zero branch compares the address
  \<open>shadow_end - 2 ^ (i + 1) + 1\<close> with \<open>shadow_beg\<close>; closer to address 0 that
  subtraction would wrap around.
\<close>

definition shadow_fits :: "env \<Rightarrow> uptr \<Rightarrow> uptr \<Rightarrow> bool" where
  "shadow_fits e addr sz \<longleftrightarrow>
     granules e sz \<le> unat (shadow_beg_of e addr) \<and>
     unat (shadow_beg_of e addr) + granules e sz < 2 ^ 64"

text \<open>The \<open>n\<close> shadow bytes from address \<open>p\<close> on, from low address to high address.\<close>

definition shadow_bytes :: "shadow \<Rightarrow> uptr \<Rightarrow> nat \<Rightarrow> u8 list" where
  "shadow_bytes sh p n = map (\<lambda>k. sh (p + of_nat k)) [0..<n]"

text \<open>
  The byte the zero branch leaves at distance \<open>d\<close> below \<open>shadow_end\<close>: 64 at distance
  1, 63 at distances 2 and 3, 62 at distances 4 to 7, and \<open>64 - i\<close> at the distances from
  \<open>2 ^ i\<close> to \<open>2 ^ (i + 1) - 1\<close>.
\<close>

definition gradient_byte :: "nat \<Rightarrow> u8" where
  "gradient_byte d = of_nat (65 - floorlog 2 d)"


text \<open>
  \<open>replays sh r sh2 r2\<close>: the writes that lead from \<open>sh\<close> to \<open>r\<close>, made on \<open>sh2\<close>,
  give \<open>r2\<close>. Every address either holds the same written byte in both results, or was
  written in neither.
\<close>

definition replays :: "shadow \<Rightarrow> shadow \<Rightarrow> shadow \<Rightarrow> shadow \<Rightarrow> bool" where
  "replays sh r sh2 r2 = (\<forall>a. r2 a = r a \<or> (r2 a = sh2 a \<and> r a = sh a))"

text \<open>
  A concrete environment: a debug build with poisoning enabled and partial-granule
  reporting on, 8-byte granules and the shadow offset of x86-64 Linux. And a shadow that
  is zero everywhere.
\<close>

definition example_env :: env where
  "example_env = \<lparr>sanitizer_debug = True, can_poison_memory = True, poison_partial = True,
     shadow_scale = 3, shadow_offset = 0x7fff8000\<rparr>"

definition clean_shadow :: shadow where
  "clean_shadow a = 0"

text \<open>The same bytes of the shadow a call returns; the error when it returns none.\<close>

definition result_bytes :: "error + shadow \<Rightarrow> uptr \<Rightarrow> nat \<Rightarrow> error + u8 list" where
  "result_bytes r p n = map_sum id (\<lambda>sh. shadow_bytes sh p n) r"

text \<open>
  The values \<^verbatim>\<open>FastPoisonShadow\<close> stores, in program order: the same statements and the
  same control flow as the three definitions of the function above, keeping of every
  assignment \<^verbatim>\<open>*(p - k) = v\<close> and of every \<^verbatim>\<open>memset\<close> the byte value only. Where the
  call ends in an error the list holds the values stored up to that point.
\<close>

definition FastPoisonShadow_switch_stores :: "uptr \<Rightarrow> u8 list" where
  "FastPoisonShadow_switch_stores N =
     (if N = 0 then []
      else if N = 1 then [64]
      else if N = 2 then [63, 64]
      else if N = 3 then [63, 63, 64]
      else if N = 4 then [62, 63, 63, 64]
      else if N = 5 then [62, 62, 63, 63, 64]
      else if N = 6 then [62, 62, 62, 63, 63, 64]
      else [62, 62, 62, 62, 63, 63, 64])"

function FastPoisonShadow_loop_stores :: "uptr \<Rightarrow> uptr \<Rightarrow> uptr \<Rightarrow> u8 list" where
  "FastPoisonShadow_loop_stores shadow_beg shadow_end i =
     (case int_shl1 (i + 1) of
        None \<Rightarrow> []
      | Some s1 \<Rightarrow>
          let bBegin = shadow_end - s1 + 1 in
          if bBegin \<le> shadow_beg then
            (case int_shl1 i of
               None \<Rightarrow> []
             | Some s0 \<Rightarrow> [ucast (64 - i)])
          else
            (case int_shl1 i of
               None \<Rightarrow> []
             | Some s0 \<Rightarrow>
                 ucast (64 - i) # FastPoisonShadow_loop_stores shadow_beg shadow_end (i + 1)))"
  by pat_completeness auto
termination
proof (relation "measure (\<lambda>(shadow_beg, shadow_end, i). 32 - unat i)")
  show "wf (measure (\<lambda>(shadow_beg, shadow_end, i). 32 - unat i))" by simp
next
  fix shadow_beg shadow_end i :: uptr and s1 bBegin s0 :: uptr
  assume "int_shl1 (i + 1) = Some s1" and "int_shl1 i = Some s0"
  then have b: "i < 32"
    by (auto simp: int_shl1_def split: if_splits)
  from b have "unat i < 32" by (simp add: word_less_nat_alt)
  moreover from this have "unat (i + 1) = unat i + 1"
    by (simp add: unat_word_ariths)
  ultimately show "((shadow_beg, shadow_end, i + 1), (shadow_beg, shadow_end, i))
      \<in> measure (\<lambda>(shadow_beg, shadow_end, i). 32 - unat i)"
    by simp
qed

definition FastPoisonShadow_stores :: "env \<Rightarrow> uptr \<Rightarrow> uptr \<Rightarrow> u8 \<Rightarrow> u8 list" where
  "FastPoisonShadow_stores e aligned_beg aligned_size value =
     (if \<not> DCHECK e (value = 0 \<or> can_poison_memory e) then []
      else
        let shadow_beg = MEM_TO_SHADOW e aligned_beg;
            shadow_end =
              MEM_TO_SHADOW e (aligned_beg + aligned_size - ASAN_SHADOW_GRANULARITY e) + 1
        in
          if value \<noteq> 0 then
            let value' = (if value \<le> 7 then 72 - value else value)
            in [value']
          else
            let N = shadow_end - shadow_beg
            in if N \<ge> 8
               then FastPoisonShadow_switch_stores N @
                    FastPoisonShadow_loop_stores shadow_beg shadow_end 3
               else FastPoisonShadow_switch_stores N)"

declare FastPoisonShadow_loop.simps [simp del]

declare FastPoisonShadow_loop_stores.simps [simp del]


section \<open>Word arithmetic for the block bounds\<close>

lemma scast_pow: "n < 31 \<Longrightarrow> (scast (2 ^ n :: 32 word) :: 64 word) = 2 ^ n"
  apply (rule bit_word_eqI)
  apply (auto simp: bit_simps)
  done

lemma int_shl1_small: "unat k < 31 \<Longrightarrow> int_shl1 k = Some (2 ^ unat k)"
  by (simp add: int_shl1_def word_less_nat_alt scast_pow)

lemma unat_pow64: "k < 64 \<Longrightarrow> unat (2 ^ k :: 64 word) = 2 ^ k"
proof -
  assume k: "k < 64"
  have "(2 ^ k :: 64 word) = of_nat (2 ^ k)" by simp
  then have "unat (2 ^ k :: 64 word) = 2 ^ k mod 2 ^ 64"
    by (simp only: unat_of_nat len_of_numeral_defs) simp
  moreover have "(2::nat) ^ k < 2 ^ 64" using k by (rule power_strict_increasing) simp
  ultimately show ?thesis by simp
qed

lemma unat_lt64: "unat (w :: 64 word) < 18446744073709551616"
  using unsigned_less [of w] by simp

lemma sub_less_nat:
  fixes m d P :: "64 word"
  assumes "unat m = 2 * p - 1" "unat P = p" "0 < p"
  shows "m - d < P \<longleftrightarrow> p \<le> unat d \<and> unat d < 2 * p"
  using assms unat_lt64 [of d] unat_lt64 [of m]
  by (simp add: unat_sub_if_size word_size word_less_nat_alt) arith

lemma sub_less_sub_nat:
  fixes N d m :: "64 word"
  assumes "unat m = p - 1" "0 < p" "p \<le> unat N"
  shows "N - d < N - m \<longleftrightarrow> p \<le> unat d \<and> unat d \<le> unat N"
  using assms unat_lt64 [of d] unat_lt64 [of N]
  by (simp add: unat_sub_if_size word_size word_less_nat_alt) arith

lemma sub_le_nat:
  fixes b e m :: "64 word"
  assumes "unat m = 2 * p - 1" "unat e = unat b + n" "p \<le> n" "n \<le> unat b" "0 < p"
  shows "e - m \<le> b \<longleftrightarrow> n < 2 * p"
  using assms unat_lt64 [of e] unat_lt64 [of b]
  by (simp add: unat_sub_if_size word_size word_le_nat_alt) arith

lemma unat_pow_pred:
  assumes "k < 64" shows "unat (2 ^ k - 1 :: 64 word) = 2 ^ k - 1"
proof -
  have "unat (2 ^ k :: 64 word) = 2 ^ k" using assms by (rule unat_pow64)
  moreover have "(0::nat) < 2 ^ k" by simp
  ultimately show ?thesis by (simp add: unat_sub_if_size word_size)
qed

lemma block_mem:
  fixes a e :: "64 word"
  assumes "k < 63"
  shows "a - (e - 2 ^ (k + 1) + 1) < (2 ^ k :: 64 word)
     \<longleftrightarrow> 2 ^ k \<le> unat (e - a) \<and> unat (e - a) < 2 ^ (k + 1)"
proof -
  have eq: "a - (e - 2 ^ (k + 1) + 1) = (2 ^ (k + 1) - 1) - (e - a)" by simp
  have "(2 ^ (k + 1) - 1) - (e - a) < (2 ^ k :: 64 word)
     \<longleftrightarrow> 2 ^ k \<le> unat (e - a) \<and> unat (e - a) < 2 * 2 ^ k"
    using assms unat_pow_pred [of "k + 1"] unat_pow64 [of k]
    by (intro sub_less_nat) simp_all
  then show ?thesis unfolding eq by simp
qed

lemma last_block_mem:
  fixes a b e :: "64 word"
  assumes "k < 64" "2 ^ k \<le> unat (e - b)"
  shows "a - b < (e - 2 ^ k + 1) - b
     \<longleftrightarrow> 2 ^ k \<le> unat (e - a) \<and> unat (e - a) \<le> unat (e - b)"
proof -
  have eq: "a - b = (e - b) - (e - a)" "(e - 2 ^ k + 1) - b = (e - b) - (2 ^ k - 1)" by simp_all
  show ?thesis unfolding eq
    using assms unat_pow_pred [of k]
    by (intro sub_less_sub_nat) simp_all
qed

lemma bBegin_le:
  fixes b e :: "64 word"
  assumes "k < 63" "unat e = unat b + n" "2 ^ k \<le> n" "n \<le> unat b"
  shows "e - 2 ^ (k + 1) + 1 \<le> b \<longleftrightarrow> n < 2 ^ (k + 1)"
proof -
  have eq: "e - 2 ^ (k + 1) + 1 = e - (2 ^ (k + 1) - 1)" by simp
  have "e - (2 ^ (k + 1) - 1) \<le> b \<longleftrightarrow> n < 2 * 2 ^ k"
    using assms unat_pow_pred [of "k + 1"]
    by (intro sub_le_nat) simp_all
  then show ?thesis unfolding eq by simp
qed

section \<open>The loop of the zero branch\<close>

lemma floorlog_band: "2 ^ i \<le> d \<Longrightarrow> d < 2 ^ (i + 1) \<Longrightarrow> floorlog 2 d = i + 1"
proof -
  assume a: "2 ^ i \<le> d" and b: "d < 2 ^ (i + 1)"
  have "Suc i \<le> floorlog 2 d" using a by (intro floorlog_ge_SucI) simp_all
  moreover have "floorlog 2 d \<le> i + 1" using b by (intro floorlog_leI) simp_all
  ultimately show ?thesis by simp
qed

lemma ucast_64_minus: "i \<le> 64 \<Longrightarrow> (ucast (64 - of_nat i :: uptr) :: u8) = of_nat (64 - i)"
proof -
  assume "i \<le> 64"
  then have "(64 - of_nat i :: uptr) = of_nat (64 - i)" by (simp add: of_nat_diff)
  moreover have "take_bit 64 (64 - i) = 64 - i"
    by (rule take_bit_nat_eq_self) (simp add: less_le_trans [of _ 65])
  ultimately show ?thesis by (simp add: unsigned_of_nat)
qed

lemma unat_of_nat_small: "i < 64 \<Longrightarrow> unat (of_nat i :: uptr) = i"
  by (simp add: unat_of_nat)

lemma loop_gradient:
  fixes b e :: uptr
  assumes nowrap: "unat e = unat b + n" and low: "n \<le> unat b" and small: "n < 2 ^ 30"
    and ge: "2 ^ i \<le> n"
  shows "FastPoisonShadow_loop b e (of_nat i) sh =
    Inr (\<lambda>a. if 2 ^ i \<le> unat (e - a) \<and> unat (e - a) \<le> n
              then gradient_byte (unat (e - a)) else sh a)"
  using ge
proof (induction "30 - i" arbitrary: i sh)
  case 0
  then have "30 \<le> i" by simp
  then have "(2::nat) ^ 30 \<le> 2 ^ i" by (intro power_increasing) simp_all
  with 0 small show ?case by simp
next
  case (Suc m)
  then have i: "i < 30" by simp
  have ui: "unat (of_nat i :: uptr) = i" using i by (simp add: unat_of_nat)
  have ui1: "unat (of_nat i + 1 :: uptr) = i + 1" using i unat_of_nat_small [of "i + 1"] by (simp add: add.commute)
  have s0: "int_shl1 (of_nat i) = Some (2 ^ i)" using int_shl1_small [of "of_nat i"] i ui by simp
  have s1: "int_shl1 (of_nat i + 1) = Some (2 ^ (i + 1))"
    using int_shl1_small [of "of_nat i + 1"] i ui1 by simp
  have uN: "unat (e - b) = n" using nowrap by (simp add: unat_sub_if_size word_size)
  have val: "(ucast (64 - of_nat i :: uptr) :: u8) = of_nat (64 - i)"
    using i by (intro ucast_64_minus) simp
  have le_iff: "e - 2 ^ (i + 1) + 1 \<le> b \<longleftrightarrow> n < 2 ^ (i + 1)"
    using i nowrap Suc.prems low by (intro bBegin_le) simp_all
  have grad: "gradient_byte d = of_nat (64 - i)" if "2 ^ i \<le> d" "d < 2 ^ (i + 1)" for d
    using floorlog_band [OF that] by (simp add: gradient_byte_def)
  show ?case
  proof (cases "n < 2 ^ (i + 1)")
    case True
    have "FastPoisonShadow_loop b e (of_nat i) sh =
        Inr (real_memset sh b (of_nat (64 - i)) (e - 2 ^ i + 1 - b))"
      using True le_iff by (subst FastPoisonShadow_loop.simps) (simp add: s0 s1 val Let_def del: power_Suc)
    moreover have "real_memset sh b (of_nat (64 - i)) (e - 2 ^ i + 1 - b) =
        (\<lambda>a. if 2 ^ i \<le> unat (e - a) \<and> unat (e - a) \<le> n
              then gradient_byte (unat (e - a)) else sh a)"
    proof
      fix a
      have "a - b < e - 2 ^ i + 1 - b \<longleftrightarrow> 2 ^ i \<le> unat (e - a) \<and> unat (e - a) \<le> unat (e - b)"
        using i Suc.prems uN by (intro last_block_mem) simp_all
      then show "real_memset sh b (of_nat (64 - i)) (e - 2 ^ i + 1 - b) a =
          (if 2 ^ i \<le> unat (e - a) \<and> unat (e - a) \<le> n
              then gradient_byte (unat (e - a)) else sh a)"
        using True grad [of "unat (e - a)"] by (auto simp: real_memset_def uN)
    qed
    ultimately show ?thesis by simp
  next
    case False
    then have ge': "2 ^ (i + 1) \<le> n" by simp
    have m: "m = 30 - (i + 1)" using Suc.hyps(2) by simp
    note IH = Suc.hyps(1) [OF m ge']
    have cast: "(of_nat i + 1 :: uptr) = of_nat (i + 1)" by simp
    have mono: "(2::nat) ^ i \<le> 2 ^ (i + 1)" by simp
    have "FastPoisonShadow_loop b e (of_nat i) sh =
        FastPoisonShadow_loop b e (of_nat i + 1)
          (real_memset sh (e - 2 ^ (i + 1) + 1) (of_nat (64 - i)) (2 ^ i))"
      using False le_iff by (subst FastPoisonShadow_loop.simps) (simp add: s0 s1 val Let_def del: power_Suc)
    also have "\<dots> = FastPoisonShadow_loop b e (of_nat (i + 1))
          (real_memset sh (e - 2 ^ (i + 1) + 1) (of_nat (64 - i)) (2 ^ i))"
      by (simp only: cast)
    also have "\<dots> = Inr (\<lambda>a. if 2 ^ (i + 1) \<le> unat (e - a) \<and> unat (e - a) \<le> n
              then gradient_byte (unat (e - a))
              else real_memset sh (e - 2 ^ (i + 1) + 1) (of_nat (64 - i)) (2 ^ i) a)"
      by (rule IH)
    also have "(\<lambda>a. if 2 ^ (i + 1) \<le> unat (e - a) \<and> unat (e - a) \<le> n
              then gradient_byte (unat (e - a))
              else real_memset sh (e - 2 ^ (i + 1) + 1) (of_nat (64 - i)) (2 ^ i) a) =
         (\<lambda>a. if 2 ^ i \<le> unat (e - a) \<and> unat (e - a) \<le> n
              then gradient_byte (unat (e - a)) else sh a)"
    proof
      fix a
      have "a - (e - 2 ^ (i + 1) + 1) < (2 ^ i :: uptr)
          \<longleftrightarrow> 2 ^ i \<le> unat (e - a) \<and> unat (e - a) < 2 ^ (i + 1)"
        using i by (intro block_mem) simp
      then show "(if 2 ^ (i + 1) \<le> unat (e - a) \<and> unat (e - a) \<le> n
              then gradient_byte (unat (e - a))
              else real_memset sh (e - 2 ^ (i + 1) + 1) (of_nat (64 - i)) (2 ^ i) a) =
         (if 2 ^ i \<le> unat (e - a) \<and> unat (e - a) \<le> n
              then gradient_byte (unat (e - a)) else sh a)"
        using ge' grad [of "unat (e - a)"]
        by (auto simp: real_memset_def)
    qed
    finally show ?thesis .
  qed
qed

section \<open>The switch of the zero branch\<close>

lemma gradient_byte_small:
  "gradient_byte 1 = 64" "gradient_byte 2 = 63" "gradient_byte 3 = 63" "gradient_byte 4 = 62"
  "gradient_byte 5 = 62" "gradient_byte 6 = 62" "gradient_byte 7 = 62"
  using floorlog_band [of 0 1] floorlog_band [of 1 2] floorlog_band [of 1 3]
    floorlog_band [of 2 4] floorlog_band [of 2 5] floorlog_band [of 2 6] floorlog_band [of 2 7]
  by (simp_all add: gradient_byte_def)

lemma small_word_cases:
  fixes d :: uptr
  shows "d = 0 \<or> d = 1 \<or> d = 2 \<or> d = 3 \<or> d = 4 \<or> d = 5 \<or> d = 6 \<or> d = 7 \<or> 7 < unat d"
proof -
  have "unat d = 0 \<or> unat d = 1 \<or> unat d = 2 \<or> unat d = 3 \<or> unat d = 4 \<or> unat d = 5
      \<or> unat d = 6 \<or> unat d = 7 \<or> 7 < unat d" by arith
  then show ?thesis by (auto simp: word_unat_eq_iff)
qed

lemma gt7_neq:
  fixes d :: uptr
  assumes "7 < unat d"
  shows "d \<noteq> 0" "d \<noteq> 1" "d \<noteq> 2" "d \<noteq> 3" "d \<noteq> 4" "d \<noteq> 5" "d \<noteq> 6" "d \<noteq> 7"
  using assms by auto

lemma gradient_chain:
  fixes d :: uptr
  shows "(if d = 1 \<and> 1 \<le> m then 64 else if d = 2 \<and> 2 \<le> m then 63
          else if d = 3 \<and> 3 \<le> m then 63 else if d = 4 \<and> 4 \<le> m then 62
          else if d = 5 \<and> 5 \<le> m then 62 else if d = 6 \<and> 6 \<le> m then 62
          else if d = 7 \<and> 7 \<le> m then 62 else x) =
         (if 1 \<le> unat d \<and> unat d \<le> min (m::nat) 7 then gradient_byte (unat d) else (x::u8))"
  using small_word_cases [of d]
  by (elim disjE) (simp_all add: gt7_neq gradient_byte_small
      gradient_byte_small(1) [unfolded One_nat_def])

lemma FastPoisonShadow_switch_gradient:
  "FastPoisonShadow_switch N p sh =
     (\<lambda>a. if 1 \<le> unat (p - a) \<and> unat (p - a) \<le> min (unat N) 7
           then gradient_byte (unat (p - a)) else sh a)"
proof
  fix a
  define d where "d = p - a"
  have upd: "(a = p - k) = (d = k)" for k by (auto simp: d_def)
  have "FastPoisonShadow_switch N p sh a =
     (if d = 1 \<and> 1 \<le> unat N then 64 else if d = 2 \<and> 2 \<le> unat N then 63
          else if d = 3 \<and> 3 \<le> unat N then 63 else if d = 4 \<and> 4 \<le> unat N then 62
          else if d = 5 \<and> 5 \<le> unat N then 62 else if d = 6 \<and> 6 \<le> unat N then 62
          else if d = 7 \<and> 7 \<le> unat N then 62 else sh a)"
    using small_word_cases [of N]
    by (elim disjE) (simp_all add: FastPoisonShadow_switch_def upd gt7_neq)
  then show "FastPoisonShadow_switch N p sh a =
     (if 1 \<le> unat (p - a) \<and> unat (p - a) \<le> min (unat N) 7
           then gradient_byte (unat (p - a)) else sh a)"
    unfolding d_def [symmetric] by (simp only: gradient_chain)
qed

section \<open>The shadow of an aligned range\<close>

lemma unat_granularity: "shadow_scale e < 64 \<Longrightarrow> unat (ASAN_SHADOW_GRANULARITY e) = 2 ^ shadow_scale e"
  by (simp add: ASAN_SHADOW_GRANULARITY_def unat_pow64)

lemma unat_last_granule:
  fixes addr sz G :: uptr
  assumes "unat addr + unat sz \<le> 2 ^ 64" "unat G \<le> unat addr + unat sz" "0 < unat G"
  shows "unat (addr + sz - G) = unat addr + unat sz - unat G"
  using assms unat_lt64 [of addr] unat_lt64 [of sz] unat_lt64 [of G]
  by (simp add: unat_sub_if_size unat_plus_if_size word_size)

lemma unat_drop_bit_div: "unat (drop_bit k w) = unat w div 2 ^ k" for w :: uptr
  by (subst unat_drop_bit_eq) (simp add: drop_bit_eq_div)

lemma word_eq_of_natI: "unat w = k \<Longrightarrow> w = of_nat k" for w :: uptr
  by auto

lemma shadow_length:
  assumes ar: "aligned_range e addr sz" and nz: "sz \<noteq> 0 \<or> addr \<noteq> 0"
  shows "shadow_end_of e addr sz - shadow_beg_of e addr = of_nat (granules e sz)"
proof -
  define g :: nat where "g = 2 ^ shadow_scale e"
  have s: "shadow_scale e < 64" and nowrap: "unat addr + unat sz \<le> 2 ^ 64"
    using ar by (simp_all add: aligned_range_def)
  obtain a where a: "unat addr = g * a" using ar by (auto simp: aligned_range_def g_def dvd_def)
  obtain n where n: "unat sz = g * n" using ar by (auto simp: aligned_range_def g_def dvd_def)
  have g0: "0 < g" by (simp add: g_def)
  have uG: "unat (ASAN_SHADOW_GRANULARITY e) = g" using s by (simp add: unat_granularity g_def)
  have pos: "0 < a + n"
  proof -
    have "unat sz \<noteq> 0 \<or> unat addr \<noteq> 0" using nz by (simp add: unat_eq_0)
    then show ?thesis using a n by auto
  qed
  then have "1 \<le> a + n" by arith
  then have "g * 1 \<le> g * (a + n)" by (rule mult_le_mono2)
  then have ge: "g \<le> unat addr + unat sz"
    using a n by (simp add: distrib_left)
  have "unat (addr + sz - ASAN_SHADOW_GRANULARITY e) = unat addr + unat sz - g"
    using unat_last_granule [of addr sz "ASAN_SHADOW_GRANULARITY e"] nowrap ge g0 uG by simp
  also have "\<dots> = g * (a + n - 1)" using a n pos by (simp add: algebra_simps)
  finally have "unat (drop_bit (shadow_scale e) (addr + sz - ASAN_SHADOW_GRANULARITY e)) = a + n - 1"
    using g0 by (simp add: unat_drop_bit_div flip: g_def)
  then have X: "drop_bit (shadow_scale e) (addr + sz - ASAN_SHADOW_GRANULARITY e) = of_nat (a + n - 1)"
    by (rule word_eq_of_natI)
  have "unat (drop_bit (shadow_scale e) addr) = a"
    using g0 a by (simp add: unat_drop_bit_div flip: g_def)
  then have Y: "drop_bit (shadow_scale e) addr = of_nat a"
    by (rule word_eq_of_natI)
  have gr: "granules e sz = n" using n g0 by (simp add: granules_def flip: g_def)
  have "(of_nat (a + n - 1) + 1 :: uptr) = of_nat (a + n)"
    using pos by (metis Suc_diff_1 add.commute of_nat_Suc)
  then have Z: "(of_nat (a + n - 1) + 1 :: uptr) - of_nat a = of_nat n" by simp
  have "shadow_end_of e addr sz - shadow_beg_of e addr =
      (of_nat (a + n - 1) + 1 :: uptr) - of_nat a"
    by (simp add: shadow_end_of_def shadow_beg_of_def MEM_TO_SHADOW_def X Y)
  then show ?thesis by (simp only: Z gr)
qed

lemma granules_lt: "granules e sz < 2 ^ 64"
proof -
  have "granules e sz \<le> unat sz" by (simp add: granules_def)
  then show ?thesis using unat_lt64 [of sz] by simp
qed

lemma unat_shadow_length:
  assumes "aligned_range e addr sz" "sz \<noteq> 0 \<or> addr \<noteq> 0"
  shows "unat (shadow_end_of e addr sz - shadow_beg_of e addr) = granules e sz"
  using shadow_length [OF assms] granules_lt [of e sz]
  by (simp add: unat_of_nat)

lemma FastPoisonShadow_nonzero:
  assumes "value \<noteq> 0" "DCHECK e (can_poison_memory e)"
  shows "FastPoisonShadow e addr sz value sh =
    Inr (real_memset sh (shadow_beg_of e addr) (if value \<le> 7 then 72 - value else value)
      (shadow_end_of e addr sz - shadow_beg_of e addr))"
  using assms
  by (simp add: FastPoisonShadow_def DCHECK_def shadow_beg_of_def shadow_end_of_def Let_def)

lemma FastPoisonShadow_zero:
  "FastPoisonShadow e addr sz 0 sh =
    (if 8 \<le> shadow_end_of e addr sz - shadow_beg_of e addr
     then FastPoisonShadow_loop (shadow_beg_of e addr) (shadow_end_of e addr sz) 3
       (FastPoisonShadow_switch (shadow_end_of e addr sz - shadow_beg_of e addr)
          (shadow_end_of e addr sz) sh)
     else Inr (FastPoisonShadow_switch (shadow_end_of e addr sz - shadow_beg_of e addr)
          (shadow_end_of e addr sz) sh))"
  by (simp add: FastPoisonShadow_def DCHECK_def shadow_beg_of_def shadow_end_of_def Let_def)

lemma window_iff:
  fixes N x :: uptr
  assumes "unat N = n"
  shows "1 \<le> unat (N - x) \<and> unat (N - x) \<le> n \<longleftrightarrow> unat x < n"
  using assms unat_lt64 [of x] unat_lt64 [of N]
  by (simp add: unat_sub_if_size word_size) arith

lemma window_distance:
  fixes N x :: uptr
  assumes "unat N = n" "unat x < n"
  shows "unat (N - x) = n - unat x"
  using assms by (simp add: unat_sub_if_size word_size)

lemma covered_iff:
  fixes a b e :: uptr
  assumes "unat (e - b) = n"
  shows "1 \<le> unat (e - a) \<and> unat (e - a) \<le> n \<longleftrightarrow> unat (a - b) < n"
proof -
  have "e - a = (e - b) - (a - b)" by simp
  then show ?thesis using window_iff [OF assms, of "a - b"] by simp
qed

lemma distance_covered:
  fixes a b e :: uptr
  assumes "unat (e - b) = n" "unat (a - b) < n"
  shows "unat (e - a) = n - unat (a - b)"
proof -
  have "e - a = (e - b) - (a - b)" by simp
  then show ?thesis using window_distance [OF assms] by simp
qed

lemma gradient_window:
  fixes a b e :: uptr
  assumes "unat (e - b) = n"
  shows "(if 1 \<le> unat (e - a) \<and> unat (e - a) \<le> n then gradient_byte (unat (e - a)) else x) =
    (if unat (a - b) < n then gradient_byte (n - unat (a - b)) else x)"
  using covered_iff [OF assms, of a] distance_covered [OF assms, of a]
  by (cases "unat (a - b) < n") auto

lemma FastPoisonShadow_zero_small:
  assumes ar: "aligned_range e addr sz" and nz: "sz \<noteq> 0" and n7: "granules e sz \<le> 7"
  shows "FastPoisonShadow e addr sz 0 sh =
    Inr (\<lambda>a. if unat (a - shadow_beg_of e addr) < granules e sz
      then gradient_byte (granules e sz - unat (a - shadow_beg_of e addr)) else sh a)"
proof -
  let ?b = "shadow_beg_of e addr" and ?e = "shadow_end_of e addr sz" and ?n = "granules e sz"
  have uN: "unat (?e - ?b) = ?n" using ar nz by (intro unat_shadow_length) simp_all
  then have "\<not> 8 \<le> ?e - ?b" using n7 by (simp add: word_le_nat_alt)
  then have "FastPoisonShadow e addr sz 0 sh = Inr (FastPoisonShadow_switch (?e - ?b) ?e sh)"
    by (simp add: FastPoisonShadow_zero)
  moreover have "FastPoisonShadow_switch (?e - ?b) ?e sh =
     (\<lambda>a. if unat (a - ?b) < ?n then gradient_byte (?n - unat (a - ?b)) else sh a)"
  proof
    fix a
    show "FastPoisonShadow_switch (?e - ?b) ?e sh a =
      (if unat (a - ?b) < ?n then gradient_byte (?n - unat (a - ?b)) else sh a)"
      using gradient_window [OF uN, of a "sh a"] n7
      by (simp add: FastPoisonShadow_switch_gradient uN min_def)
  qed
  ultimately show ?thesis by simp
qed

lemma merge_windows:
  assumes "8 \<le> (n::nat)"
  shows "(if 2 ^ 3 \<le> d \<and> d \<le> n then g
          else if 1 \<le> d \<and> d \<le> min n 7 then g else x) =
         (if 1 \<le> d \<and> d \<le> n then g else (x::u8))"
  using assms by auto

lemma FastPoisonShadow_zero_gradient:
  assumes ar: "aligned_range e addr sz" and nz: "sz \<noteq> 0" and fits: "shadow_fits e addr sz"
    and small: "granules e sz < 2 ^ 30"
  shows "FastPoisonShadow e addr sz 0 sh =
    Inr (\<lambda>a. if unat (a - shadow_beg_of e addr) < granules e sz
      then gradient_byte (granules e sz - unat (a - shadow_beg_of e addr)) else sh a)"
proof (cases "granules e sz \<le> 7")
  case True
  with ar nz show ?thesis by (rule FastPoisonShadow_zero_small)
next
  case False
  define b where "b = shadow_beg_of e addr"
  define e' where "e' = shadow_end_of e addr sz"
  define n where "n = granules e sz"
  have N: "e' - b = of_nat n" unfolding e'_def b_def n_def using ar nz by (intro shadow_length) simp_all
  have uN: "unat (e' - b) = n" unfolding e'_def b_def n_def using ar nz by (intro unat_shadow_length) simp_all
  have "e' = b + of_nat n" using N by (simp add: algebra_simps)
  then have "unat e' = unat (b + of_nat n)" by simp
  also have "\<dots> = unat b + n"
    using fits granules_lt [of e sz]
    by (simp add: shadow_fits_def unat_plus_if_size word_size unat_of_nat b_def n_def)
  finally have nowrap: "unat e' = unat b + n" .
  have low: "n \<le> unat b" using fits by (simp add: shadow_fits_def b_def n_def)
  have n8: "8 \<le> n" using False by (simp add: n_def)
  then have ge: "2 ^ 3 \<le> n" by simp
  have small': "n < 2 ^ 30" using small by (simp add: n_def)
  have "8 \<le> e' - b" using n8 uN by (simp add: word_le_nat_alt)
  then have "FastPoisonShadow e addr sz 0 sh =
      FastPoisonShadow_loop b e' (of_nat 3) (FastPoisonShadow_switch (e' - b) e' sh)"
    by (simp add: FastPoisonShadow_zero b_def e'_def)
  also have "\<dots> = Inr (\<lambda>a. if 2 ^ 3 \<le> unat (e' - a) \<and> unat (e' - a) \<le> n
              then gradient_byte (unat (e' - a))
              else FastPoisonShadow_switch (e' - b) e' sh a)"
    using nowrap low small' ge by (rule loop_gradient)
  also have "(\<lambda>a. if 2 ^ 3 \<le> unat (e' - a) \<and> unat (e' - a) \<le> n
              then gradient_byte (unat (e' - a))
              else FastPoisonShadow_switch (e' - b) e' sh a) =
      (\<lambda>a. if unat (a - b) < n then gradient_byte (n - unat (a - b)) else sh a)"
  proof
    fix a
    have "(if 2 ^ 3 \<le> unat (e' - a) \<and> unat (e' - a) \<le> n
              then gradient_byte (unat (e' - a))
              else FastPoisonShadow_switch (e' - b) e' sh a) =
          (if 2 ^ 3 \<le> unat (e' - a) \<and> unat (e' - a) \<le> n
              then gradient_byte (unat (e' - a))
              else if 1 \<le> unat (e' - a) \<and> unat (e' - a) \<le> min n 7
                then gradient_byte (unat (e' - a)) else sh a)"
      by (simp only: FastPoisonShadow_switch_gradient uN)
    also have "\<dots> = (if 1 \<le> unat (e' - a) \<and> unat (e' - a) \<le> n
        then gradient_byte (unat (e' - a)) else sh a)"
      using n8 by (rule merge_windows)
    also have "\<dots> = (if unat (a - b) < n then gradient_byte (n - unat (a - b)) else sh a)"
      using uN by (rule gradient_window)
    finally show "(if 2 ^ 3 \<le> unat (e' - a) \<and> unat (e' - a) \<le> n
              then gradient_byte (unat (e' - a))
              else FastPoisonShadow_switch (e' - b) e' sh a) =
          (if unat (a - b) < n then gradient_byte (n - unat (a - b)) else sh a)" .
  qed
  finally show ?thesis unfolding b_def n_def .
qed

section \<open>Calling twice\<close>



lemma replays_upd:
  "replays sh r sh2 r2 \<Longrightarrow> replays sh (r(p := v)) sh2 (r2(p := v))"
  by (simp add: replays_def)







section \<open>The nonzero branch: uniform fill\<close>

lemma unat_offset_in_range:
  fixes b :: uptr
  assumes "k < n" "n < 2 ^ 64"
  shows "unat (b + of_nat k - b) = k"
  using assms by (simp add: unat_of_nat)

lemma remap_nat:
  fixes v :: u8
  assumes "v \<noteq> 0"
  shows "(if v \<le> 7 then 72 - v else v) =
     of_nat (if unat v \<le> 7 then 72 - unat v else unat v)"
proof (cases "v \<le> 7")
  case True
  then have le: "unat v \<le> 7" by (simp add: word_le_nat_alt)
  then have "(of_nat (72 - unat v) :: u8) = 72 - v" by (simp add: of_nat_diff)
  then show ?thesis using True le by simp
next
  case False
  then show ?thesis by (simp add: word_le_nat_alt)
qed

text \<open>
  Claim C1. For a granule-aligned range with \<open>size > 0\<close> and a nonzero tag, the call
  returns, and every covered shadow byte holds one value: \<open>72 - tag\<close> for a tag in
  \<open>[1, 7]\<close>, which lies in \<open>[65, 71]\<close>, and the tag itself for a tag in \<open>[8, 255]\<close>.
  In a debug build the tag is written only with poisoning enabled.
\<close>

theorem FastPoisonShadow_nonzero_fill:
  assumes "aligned_range e addr sz" and "sz \<noteq> 0" and "tag \<noteq> 0"
    and "DCHECK e (can_poison_memory e)"
  shows "\<exists>sh'. FastPoisonShadow e addr sz tag sh = Inr sh' \<and>
      shadow_bytes sh' (shadow_beg_of e addr) (granules e sz) =
        replicate (granules e sz) (of_nat (if unat tag \<le> 7 then 72 - unat tag else unat tag)) \<and>
      (if unat tag \<le> 7
       then 65 \<le> unat (sh' (shadow_beg_of e addr)) \<and> unat (sh' (shadow_beg_of e addr)) \<le> 71
       else sh' (shadow_beg_of e addr) = tag)"
proof -
  let ?b = "shadow_beg_of e addr" and ?n = "granules e sz"
  let ?v = "if tag \<le> 7 then 72 - tag else tag"
  let ?sh' = "real_memset sh ?b ?v (shadow_end_of e addr sz - ?b)"
  have N: "shadow_end_of e addr sz - ?b = of_nat ?n"
    using assms(1,2) by (intro shadow_length) simp_all
  have uN: "unat (shadow_end_of e addr sz - ?b) = ?n"
    using assms(1,2) by (intro unat_shadow_length) simp_all
  have run: "FastPoisonShadow e addr sz tag sh = Inr ?sh'"
    using assms(3,4) by (rule FastPoisonShadow_nonzero)
  have at: "?sh' (?b + of_nat k) = ?v" if "k < ?n" for k
  proof -
    have "unat (?b + of_nat k - ?b) = k"
      using that granules_lt [of e sz] by (rule unat_offset_in_range)
    then have "?b + of_nat k - ?b < shadow_end_of e addr sz - ?b"
      using that uN by (simp only: word_less_nat_alt)
    then show ?thesis by (simp add: real_memset_def)
  qed
  have bytes: "shadow_bytes ?sh' ?b ?n = replicate ?n ?v"
    unfolding shadow_bytes_def using at by (intro replicate_eqI) auto
  have pos: "0 < ?n"
  proof -
    have "unat sz \<noteq> 0" using assms(2) by (simp add: unat_eq_0)
    moreover have "2 ^ shadow_scale e dvd unat sz" using assms(1) by (simp add: aligned_range_def)
    ultimately have "2 ^ shadow_scale e \<le> unat sz" by (intro dvd_imp_le) simp_all
    then show ?thesis by (simp add: granules_def div_greater_zero_iff)
  qed
  have first: "?sh' ?b = ?v" using at [OF pos] by simp
  have rng: "if unat tag \<le> 7 then 65 \<le> unat ?v \<and> unat ?v \<le> 71 else ?v = tag"
  proof (cases "tag \<le> 7")
    case True
    then have le: "unat tag \<le> 7" by (simp add: word_le_nat_alt)
    have "unat tag \<noteq> 0" using assms(3) by (simp add: unat_eq_0)
    moreover have "unat (72 - tag) = 72 - unat tag"
      using le by (simp add: unat_sub_if_size word_size)
    ultimately have "65 \<le> unat (72 - tag) \<and> unat (72 - tag) \<le> 71" using le by arith
    then show ?thesis using True le by simp
  next
    case False
    then show ?thesis by (simp add: word_le_nat_alt)
  qed
  have c2: "shadow_bytes ?sh' ?b ?n =
      replicate ?n (of_nat (if unat tag \<le> 7 then 72 - unat tag else unat tag))"
    unfolding remap_nat [OF assms(3), symmetric] by (rule bytes)
  have c3: "if unat tag \<le> 7
       then 65 \<le> unat (?sh' ?b) \<and> unat (?sh' ?b) \<le> 71 else ?sh' ?b = tag"
    unfolding first by (rule rng)
  show ?thesis
    by (intro exI [of _ ?sh'] conjI run c2 c3)
qed

lemma example_env_simps:
  "sanitizer_debug example_env = True" "can_poison_memory example_env = True"
  "poison_partial example_env = True" "shadow_scale example_env = 3"
  "shadow_offset example_env = 0x7fff8000"
  by (simp_all add: example_env_def)

lemma example_granularity: "ASAN_SHADOW_GRANULARITY example_env = 8"
  by (simp add: ASAN_SHADOW_GRANULARITY_def example_env_simps)

theorem FastPoisonShadow_nonzero_fill_witness:
  "aligned_range example_env 0x10000 16 \<and> (16 :: uptr) \<noteq> 0 \<and> (5 :: u8) \<noteq> 0 \<and>
   DCHECK example_env (can_poison_memory example_env) \<and>
   (\<exists>sh'. FastPoisonShadow example_env 0x10000 16 5 clean_shadow = Inr sh' \<and>
      shadow_bytes sh' 0x7fffa000 2 = [67, 67])"
proof -
  have a: "aligned_range example_env 0x10000 16"
    by (simp add: aligned_range_def example_env_simps)
  have d: "DCHECK example_env (can_poison_memory example_env)"
    by (simp add: DCHECK_def example_env_simps)
  have g: "granules example_env 16 = 2" by (simp add: granules_def example_env_simps)
  have r: "replicate 2 x = [x, x]" for x :: u8 by (simp add: numeral_2_eq_2)
  have b: "shadow_beg_of example_env 0x10000 = 0x7fffa000"
    by (simp add: shadow_beg_of_def MEM_TO_SHADOW_def example_env_simps drop_bit_eq_div)
  show ?thesis
    using FastPoisonShadow_nonzero_fill [where e = example_env and addr = "0x10000" and sz = 16 and tag = 5
        and sh = clean_shadow] a d
    by (auto simp add: g b r)
qed

section \<open>The zero branch on short ranges\<close>

lemma upt_small:
  "[0..<2] = [0, 1]" "[0..<3] = [0, 1, 2]" "[0..<4] = [0, 1, 2, 3]" "[0..<5] = [0, 1, 2, 3, 4]"
  "[0..<6] = [0, 1, 2, 3, 4, 5]" "[0..<7] = [0, 1, 2, 3, 4, 5, 6]"
  by (simp_all add: upt_rec)

lemma gradient_suffix:
  assumes "n \<le> 6"
  shows "map (\<lambda>k. gradient_byte (n - k)) [0..<n] = drop (6 - n) [62, 62, 62, 63, 63, 64]"
proof -
  have "n = 0 \<or> n = 1 \<or> n = 2 \<or> n = 3 \<or> n = 4 \<or> n = 5 \<or> n = 6" using assms by arith
  then show ?thesis
    by (elim disjE)
      (simp_all add: upt_small gradient_byte_small gradient_byte_small(1) [unfolded One_nat_def])
qed

lemma shadow_bytes_gradient:
  fixes b :: uptr
  assumes "n < 2 ^ 64"
  shows "shadow_bytes (\<lambda>a. if unat (a - b) < n then gradient_byte (n - unat (a - b)) else sh a) b n =
     map (\<lambda>k. gradient_byte (n - k)) [0..<n]"
  unfolding shadow_bytes_def
proof (rule map_cong [OF refl])
  fix k assume "k \<in> set [0..<n]"
  then have k: "k < n" by simp
  then have "unat (b + of_nat k - b) = k" using assms by (rule unat_offset_in_range)
  then show "(if unat (b + of_nat k - b) < n then gradient_byte (n - unat (b + of_nat k - b))
      else sh (b + of_nat k)) = gradient_byte (n - k)" using k by simp
qed

text \<open>
  Claim C3. For a granule-aligned range with tag 0 and \<open>0 < size < 7 * G\<close>, the covered
  shadow bytes, from low address to high address, are the suffix of length \<open>size / G\<close> of
  \<open>[62, 62, 62, 63, 63, 64]\<close>, and every shadow byte outside the range keeps its value.
\<close>

theorem FastPoisonShadow_zero_short:
  assumes "aligned_range e addr sz" and "sz \<noteq> 0" and "unat sz < 7 * 2 ^ shadow_scale e"
  shows "\<exists>sh'. FastPoisonShadow e addr sz 0 sh = Inr sh' \<and>
      shadow_bytes sh' (shadow_beg_of e addr) (granules e sz) =
        drop (6 - granules e sz) [62, 62, 62, 63, 63, 64] \<and>
      (\<forall>a. granules e sz \<le> unat (a - shadow_beg_of e addr) \<longrightarrow> sh' a = sh a)"
proof -
  let ?b = "shadow_beg_of e addr" and ?n = "granules e sz"
  let ?sh' = "\<lambda>a. if unat (a - ?b) < ?n then gradient_byte (?n - unat (a - ?b)) else sh a"
  have n6: "?n \<le> 6"
  proof -
    have "?n < 7" using assms(3) by (simp add: granules_def less_mult_imp_div_less)
    then show ?thesis by simp
  qed
  then have run: "FastPoisonShadow e addr sz 0 sh = Inr ?sh'"
    using assms(1,2) by (intro FastPoisonShadow_zero_small) simp_all
  have "shadow_bytes ?sh' ?b ?n = map (\<lambda>k. gradient_byte (?n - k)) [0..<?n]"
    using granules_lt by (rule shadow_bytes_gradient)
  also have "\<dots> = drop (6 - ?n) [62, 62, 62, 63, 63, 64]" using n6 by (rule gradient_suffix)
  finally have bytes: "shadow_bytes ?sh' ?b ?n = drop (6 - ?n) [62, 62, 62, 63, 63, 64]" .
  have frame: "\<forall>a. ?n \<le> unat (a - ?b) \<longrightarrow> ?sh' a = sh a" by simp
  show ?thesis by (intro exI [of _ ?sh'] conjI run bytes frame)
qed

theorem FastPoisonShadow_zero_short_witness:
  "aligned_range example_env 0x10000 24 \<and> (24 :: uptr) \<noteq> 0 \<and>
   unat (24 :: uptr) < 7 * 2 ^ shadow_scale example_env \<and>
   (\<exists>sh'. FastPoisonShadow example_env 0x10000 24 0 clean_shadow = Inr sh' \<and>
      shadow_bytes sh' 0x7fffa000 3 = [63, 63, 64] \<and> sh' 0x7fffa003 = clean_shadow 0x7fffa003)"
proof -
  have a: "aligned_range example_env 0x10000 24"
    by (simp add: aligned_range_def example_env_simps)
  have l: "unat (24 :: uptr) < 7 * 2 ^ shadow_scale example_env"
    by (simp add: example_env_simps)
  have g: "granules example_env 24 = 3" by (simp add: granules_def example_env_simps)
  have b: "shadow_beg_of example_env 0x10000 = 0x7fffa000"
    by (simp add: shadow_beg_of_def MEM_TO_SHADOW_def example_env_simps drop_bit_eq_div)
  show ?thesis
    using FastPoisonShadow_zero_short [where e = example_env and addr = "0x10000" and sz = 24
        and sh = clean_shadow] a l
    by (auto simp add: g b)
qed

section \<open>The zero branch: the fixed tail\<close>

lemma tail_byte:
  fixes b e :: uptr
  assumes uN: "unat (e - b) = n" and j: "1 \<le> j" "j \<le> n"
  shows "(if unat (e - of_nat j - b) < n then gradient_byte (n - unat (e - of_nat j - b)) else x)
     = gradient_byte j"
proof -
  have n: "n < 2 ^ 64" using unat_lt64 [of "e - b"] uN by simp
  then have uj: "unat (of_nat j :: uptr) = j" using j by (simp add: unat_of_nat)
  have "e - (e - of_nat j) = (of_nat j :: uptr)" by simp
  then have d: "unat (e - (e - of_nat j)) = j" using uj by simp
  show ?thesis
    using gradient_window [OF uN, of "e - of_nat j" x, symmetric] j
    by (simp only: d) simp
qed

text \<open>
  Claim C2, amended. For a granule-aligned range with tag 0 whose size is at least
  \<open>7 * G\<close> and less than \<open>2 ^ 30\<close> granules, and whose shadow lies at least its own length
  above address 0, the last 7 shadow bytes, from low address to high address, are
  \<open>[62, 62, 62, 62, 63, 63, 64]\<close>: seven bytes, four of them 62. The last six are the
  sequence \<open>[62, 62, 62, 63, 63, 64]\<close> of the specification.
\<close>

theorem FastPoisonShadow_zero_tail:
  assumes "aligned_range e addr sz" and "shadow_fits e addr sz"
    and "7 \<le> granules e sz" and "granules e sz < 2 ^ 30"
  shows "\<exists>sh'. FastPoisonShadow e addr sz 0 sh = Inr sh' \<and>
      shadow_bytes sh' (shadow_end_of e addr sz - 7) 7 = [62, 62, 62, 62, 63, 63, 64]"
proof -
  let ?b = "shadow_beg_of e addr" and ?n = "granules e sz" and ?e = "shadow_end_of e addr sz"
  define sh' where
    "sh' = (\<lambda>a. if unat (a - ?b) < ?n then gradient_byte (?n - unat (a - ?b)) else sh a)"
  have nz: "sz \<noteq> 0" using assms(3) by (auto simp: granules_def)
  have run: "FastPoisonShadow e addr sz 0 sh = Inr sh'"
    unfolding sh'_def using assms(1) nz assms(2,4) by (rule FastPoisonShadow_zero_gradient)
  have uN: "unat (?e - ?b) = ?n" using assms(1) nz by (intro unat_shadow_length) simp_all
  have t: "sh' (?e - of_nat j) = gradient_byte j" if "1 \<le> j" "j \<le> 7" for j
    unfolding sh'_def using tail_byte [OF uN, of j] that assms(3) by simp
  have "shadow_bytes sh' (?e - 7) 7 =
      [sh' (?e - 7), sh' (?e - 6), sh' (?e - 5), sh' (?e - 4), sh' (?e - 3), sh' (?e - 2),
       sh' (?e - 1)]"
    by (simp add: shadow_bytes_def upt_small)
  also have "\<dots> = [62, 62, 62, 62, 63, 63, 64]"
    using t [of 7] t [of 6] t [of 5] t [of 4] t [of 3] t [of 2] t [of 1]
    by (simp add: gradient_byte_small gradient_byte_small(1) [unfolded One_nat_def])
  finally have bytes: "shadow_bytes sh' (?e - 7) 7 = [62, 62, 62, 62, 63, 63, 64]" .
  show ?thesis by (intro exI [of _ sh'] conjI run bytes)
qed

theorem FastPoisonShadow_zero_tail_witness:
  "aligned_range example_env 0x10000 64 \<and> shadow_fits example_env 0x10000 64 \<and>
   7 \<le> granules example_env 64 \<and> granules example_env 64 < 2 ^ 30 \<and>
   (\<exists>sh'. FastPoisonShadow example_env 0x10000 64 0 clean_shadow = Inr sh' \<and>
      shadow_bytes sh' 0x7fffa001 7 = [62, 62, 62, 62, 63, 63, 64])"
proof -
  have a: "aligned_range example_env 0x10000 64"
    by (simp add: aligned_range_def example_env_simps)
  have g: "granules example_env 64 = 8" by (simp add: granules_def example_env_simps)
  have b: "shadow_beg_of example_env 0x10000 = 0x7fffa000"
    by (simp add: shadow_beg_of_def MEM_TO_SHADOW_def example_env_simps drop_bit_eq_div)
  have e: "shadow_end_of example_env 0x10000 64 = 0x7fffa008"
    by (simp add: shadow_end_of_def MEM_TO_SHADOW_def example_env_simps example_granularity
        drop_bit_eq_div)
  have f: "shadow_fits example_env 0x10000 64" by (simp add: shadow_fits_def g b)
  show ?thesis
    using FastPoisonShadow_zero_tail [where e = example_env and addr = "0x10000" and sz = 64
        and sh = clean_shadow] a f
    by (auto simp add: g e)
qed

text \<open>
  Claim C2 as stated fails: on a range of exactly 7 granules the last 7 shadow bytes are
  seven values, not the six of the claim.
\<close>

theorem FastPoisonShadow_zero_tail_counterexample:
  "result_bytes (FastPoisonShadow example_env 0x10000 56 0 clean_shadow) 0x7fffa000 7 =
     Inr [62, 62, 62, 62, 63, 63, 64] \<and>
   result_bytes (FastPoisonShadow example_env 0x10000 56 0 clean_shadow) 0x7fffa000 7 \<noteq>
     Inr [62, 62, 62, 63, 63, 64]"
proof -
  have a: "aligned_range example_env 0x10000 56"
    by (simp add: aligned_range_def example_env_simps)
  have g: "granules example_env 56 = 7" by (simp add: granules_def example_env_simps)
  have b: "shadow_beg_of example_env 0x10000 = 0x7fffa000"
    by (simp add: shadow_beg_of_def MEM_TO_SHADOW_def example_env_simps drop_bit_eq_div)
  have "FastPoisonShadow example_env 0x10000 56 0 clean_shadow =
    Inr (\<lambda>a. if unat (a - 0x7fffa000) < 7 then gradient_byte (7 - unat (a - 0x7fffa000))
      else clean_shadow a)"
    by (rule FastPoisonShadow_zero_small [OF a, unfolded g b]) simp_all
  then show ?thesis
    by (simp add: result_bytes_def shadow_bytes_def upt_small gradient_byte_small
        gradient_byte_small(1) [unfolded One_nat_def])
qed

section \<open>Empty ranges\<close>

lemma real_memset_empty: "real_memset sh p v 0 = sh"
  by (simp add: real_memset_def)

lemma FastPoisonShadow_switch_empty: "FastPoisonShadow_switch 0 p sh = sh"
  by (simp add: FastPoisonShadow_switch_def)

text \<open>
  Claim C8, amended. For every granule-aligned address other than 0 and every tag, a call
  with \<open>size = 0\<close> whose check passes returns the shadow it was given, in the zero
  branch and in the nonzero branch.
\<close>

theorem FastPoisonShadow_empty:
  assumes "aligned_range e addr 0" and "addr \<noteq> 0"
    and "DCHECK e (tag = 0 \<or> can_poison_memory e)"
  shows "FastPoisonShadow e addr 0 tag sh = Inr sh"
proof -
  have "shadow_end_of e addr 0 - shadow_beg_of e addr = of_nat (granules e 0)"
    using assms(1,2) by (intro shadow_length) simp_all
  then have N: "shadow_end_of e addr 0 - shadow_beg_of e addr = 0"
    by (simp add: granules_def)
  show ?thesis
  proof (cases "tag = 0")
    case True
    then show ?thesis
      by (simp add: FastPoisonShadow_zero N FastPoisonShadow_switch_empty)
  next
    case False
    then have "DCHECK e (can_poison_memory e)" using assms(3) by simp
    with False show ?thesis
      by (simp add: FastPoisonShadow_nonzero N real_memset_empty)
  qed
qed

theorem FastPoisonShadow_empty_witness:
  "aligned_range example_env 0x10000 0 \<and> (0x10000 :: uptr) \<noteq> 0 \<and>
   DCHECK example_env ((250 :: u8) = 0 \<or> can_poison_memory example_env) \<and>
   FastPoisonShadow example_env 0x10000 0 250 clean_shadow = Inr clean_shadow"
proof -
  have a: "aligned_range example_env 0x10000 0"
    by (simp add: aligned_range_def example_env_simps)
  have d: "DCHECK example_env ((250 :: u8) = 0 \<or> can_poison_memory example_env)"
    by (simp add: DCHECK_def example_env_simps)
  show ?thesis
    using FastPoisonShadow_empty [where e = example_env and addr = "0x10000" and tag = 250
        and sh = clean_shadow] a d
    by simp
qed

text \<open>
  Claim C8 as stated fails at the aligned address 0: \<open>0 + 0 - G\<close> wraps around, the
  shadow length comes out as \<open>2 ^ 61\<close>, and a nonzero tag is written from the shadow
  offset on.
\<close>

theorem FastPoisonShadow_empty_counterexample:
  "FastPoisonShadow example_env 0 0 1 clean_shadow \<noteq> Inr clean_shadow"
proof
  assume "FastPoisonShadow example_env 0 0 1 clean_shadow = Inr clean_shadow"
  moreover have "DCHECK example_env (can_poison_memory example_env)"
    by (simp add: DCHECK_def example_env_simps)
  then have "FastPoisonShadow example_env 0 0 1 clean_shadow =
      Inr (real_memset clean_shadow (shadow_beg_of example_env 0) (if (1::u8) \<le> 7 then 72 - 1 else 1)
        (shadow_end_of example_env 0 0 - shadow_beg_of example_env 0))"
    by (intro FastPoisonShadow_nonzero) simp_all
  ultimately have "real_memset clean_shadow (shadow_beg_of example_env 0) 71
      (shadow_end_of example_env 0 0 - shadow_beg_of example_env 0) = clean_shadow"
    by simp
  then have "real_memset clean_shadow (shadow_beg_of example_env 0) 71
      (shadow_end_of example_env 0 0 - shadow_beg_of example_env 0) 0x7fff8000 =
      clean_shadow 0x7fff8000"
    by (rule fun_cong)
  then show False
    by (simp add: real_memset_def clean_shadow_def shadow_beg_of_def shadow_end_of_def
        MEM_TO_SHADOW_def example_env_simps example_granularity drop_bit_eq_div)
qed

section \<open>The zero branch: bands, order and bounds below \<open>2 ^ 30\<close> granules\<close>

lemma floorlog_bounds_30:
  assumes "0 < d" "d < 2 ^ 30"
  shows "1 \<le> floorlog 2 d \<and> floorlog 2 d \<le> 30"
proof -
  have "Suc 0 \<le> floorlog 2 d" using assms(1) by (intro floorlog_ge_SucI) simp_all
  moreover have "floorlog 2 d \<le> 30" using assms(2) by (intro floorlog_leI) simp_all
  ultimately show ?thesis by simp
qed

lemma unat_gradient_byte: "unat (gradient_byte d) = 65 - floorlog 2 d"
proof -
  have "65 - floorlog 2 d < 256" by arith
  then show ?thesis by (simp add: gradient_byte_def unat_of_nat)
qed

lemma gradient_byte_antimono: "d2 \<le> d1 \<Longrightarrow> gradient_byte d1 \<le> gradient_byte d2"
  using floorlog_mono [of d2 d1 2]
  by (simp add: word_le_nat_alt unat_gradient_byte)

lemma gradient_byte_range:
  assumes "0 < d" "d < 2 ^ 30"
  shows "35 \<le> unat (gradient_byte d) \<and> unat (gradient_byte d) \<le> 64"
  using floorlog_bounds_30 [OF assms] by (simp add: unat_gradient_byte) arith

lemma gradient_byte_band:
  assumes "2 ^ i \<le> d" "d < 2 ^ (i + 1)"
  shows "gradient_byte d = of_nat (64 - i)"
  using floorlog_band [OF assms] by (simp add: gradient_byte_def)

text \<open>
  Below \<open>2 ^ 30\<close> granules the zero branch returns, and the byte at offset \<open>k\<close> of the
  range is the gradient byte of its distance \<open>size / G - k\<close> from the end.
\<close>

lemma FastPoisonShadow_zero_at:
  assumes "aligned_range e addr sz" and "sz \<noteq> 0" and "shadow_fits e addr sz"
    and "granules e sz < 2 ^ 30" and "k < granules e sz"
    and "FastPoisonShadow e addr sz 0 sh = Inr sh'"
  shows "sh' (shadow_beg_of e addr + of_nat k) = gradient_byte (granules e sz - k)"
proof -
  have "unat (shadow_beg_of e addr + of_nat k - shadow_beg_of e addr) = k"
    using assms(5) granules_lt by (rule unat_offset_in_range)
  then show ?thesis
    using assms(6,5) unfolding FastPoisonShadow_zero_gradient [OF assms(1-4)] by auto
qed

lemma FastPoisonShadow_zero_monotone:
  assumes "aligned_range e addr sz" and "sz \<noteq> 0" and "shadow_fits e addr sz"
    and "granules e sz < 2 ^ 30" and "x < y" and "y < granules e sz"
  shows "\<exists>sh'. FastPoisonShadow e addr sz 0 sh = Inr sh' \<and>
    sh' (shadow_beg_of e addr + of_nat x) \<le> sh' (shadow_beg_of e addr + of_nat y)"
proof -
  obtain sh' where run: "FastPoisonShadow e addr sz 0 sh = Inr sh'"
    using FastPoisonShadow_zero_gradient [OF assms(1-4)] by simp
  have "sh' (shadow_beg_of e addr + of_nat x) = gradient_byte (granules e sz - x)"
    using assms(1-4) _ run by (rule FastPoisonShadow_zero_at) (use assms(5,6) in simp)
  moreover have "sh' (shadow_beg_of e addr + of_nat y) = gradient_byte (granules e sz - y)"
    using assms(1-4,6) run by (rule FastPoisonShadow_zero_at)
  moreover have "gradient_byte (granules e sz - x) \<le> gradient_byte (granules e sz - y)"
    using assms(5) by (intro gradient_byte_antimono) simp
  ultimately show ?thesis using run by simp
qed

lemma FastPoisonShadow_zero_nonzero_bytes:
  assumes "aligned_range e addr sz" and "sz \<noteq> 0" and "shadow_fits e addr sz"
    and "granules e sz < 2 ^ 30" and "k < granules e sz"
  shows "\<exists>sh'. FastPoisonShadow e addr sz 0 sh = Inr sh' \<and>
    35 \<le> unat (sh' (shadow_beg_of e addr + of_nat k)) \<and>
    unat (sh' (shadow_beg_of e addr + of_nat k)) \<le> 64"
proof -
  obtain sh' where run: "FastPoisonShadow e addr sz 0 sh = Inr sh'"
    using FastPoisonShadow_zero_gradient [OF assms(1-4)] by simp
  have "sh' (shadow_beg_of e addr + of_nat k) = gradient_byte (granules e sz - k)"
    using assms run by (rule FastPoisonShadow_zero_at)
  moreover have "35 \<le> unat (gradient_byte (granules e sz - k)) \<and>
      unat (gradient_byte (granules e sz - k)) \<le> 64"
    using assms(4,5) by (intro gradient_byte_range) simp_all
  ultimately show ?thesis using run by simp
qed

lemma FastPoisonShadow_zero_blocks:
  assumes "aligned_range e addr sz" and "sz \<noteq> 0" and "shadow_fits e addr sz"
    and "granules e sz < 2 ^ 30"
    and "2 ^ i \<le> unat (shadow_end_of e addr sz - a)"
    and "unat (shadow_end_of e addr sz - a) < 2 ^ (i + 1)"
    and "unat (shadow_end_of e addr sz - a) \<le> granules e sz"
  shows "\<exists>sh'. FastPoisonShadow e addr sz 0 sh = Inr sh' \<and> sh' a = of_nat (64 - i)"
proof -
  let ?b = "shadow_beg_of e addr" and ?n = "granules e sz" and ?e = "shadow_end_of e addr sz"
  have uN: "unat (?e - ?b) = ?n" using assms(1,2) by (intro unat_shadow_length) simp_all
  have pos: "1 \<le> unat (?e - a)"
  proof -
    have "(1::nat) \<le> 2 ^ i" by simp
    then show ?thesis using assms(5) by (rule order_trans)
  qed
  have "(if unat (a - ?b) < ?n then gradient_byte (?n - unat (a - ?b)) else sh a) =
      (if 1 \<le> unat (?e - a) \<and> unat (?e - a) \<le> ?n then gradient_byte (unat (?e - a)) else sh a)"
    using gradient_window [OF uN, of a "sh a"] by simp
  also have "\<dots> = gradient_byte (unat (?e - a))" using pos assms(7) by simp
  also have "\<dots> = of_nat (64 - i)" using assms(5,6) by (rule gradient_byte_band)
  finally show ?thesis
    unfolding FastPoisonShadow_zero_gradient [OF assms(1-4)] by simp
qed

section \<open>The zero branch at \<open>2 ^ 30\<close> granules\<close>

text \<open>
  An 8 GiB range at \<open>0x100000000\<close>: \<open>2 ^ 30\<close> granules of 8 bytes, with the shadow
  \<open>[0x9fff8000, 0xdfff8000)\<close>. The loop reaches \<open>i = 30\<close>, where \<^verbatim>\<open>1 << (i + 1)\<close>
  overflows \<^verbatim>\<open>int\<close>, and \<open>i = 31\<close>, where the shift count is the width of \<^verbatim>\<open>int\<close>.
\<close>

lemma int_shl1_31: "int_shl1 31 = Some 0xFFFFFFFF80000000"
  by (simp add: int_shl1_def)

lemma FastPoisonShadow_loop_from_30:
  "FastPoisonShadow_loop 0x9fff8000 0xdfff8000 30 sh = Inl ShiftUndefined"
  by (simp add: FastPoisonShadow_loop.simps int_shl1_def Let_def)

lemma FastPoisonShadow_loop_from_3:
  "FastPoisonShadow_loop 0x9fff8000 0xdfff8000 3 sh = Inl ShiftUndefined"
  by (simp add: FastPoisonShadow_loop.simps int_shl1_def Let_def)

lemma FastPoisonShadow_8GiB:
  "FastPoisonShadow example_env 0x100000000 0x200000000 0 sh = Inl ShiftUndefined"
proof -
  have b: "shadow_beg_of example_env 0x100000000 = 0x9fff8000"
    by (simp add: shadow_beg_of_def MEM_TO_SHADOW_def example_env_simps drop_bit_eq_div)
  have e: "shadow_end_of example_env 0x100000000 0x200000000 = 0xdfff8000"
    by (simp add: shadow_end_of_def MEM_TO_SHADOW_def example_env_simps example_granularity
        drop_bit_eq_div)
  show ?thesis
    by (simp add: FastPoisonShadow_zero b e FastPoisonShadow_loop_from_3)
qed

text \<open>
  A zero-tag range of \<open>2 ^ 30\<close> granules ends in the undefined shift and returns no
  shadow.
\<close>

lemma FastPoisonShadow_8GiB_undefined:
  "aligned_range example_env 0x100000000 0x200000000 \<and>
   shadow_fits example_env 0x100000000 0x200000000 \<and>
   granules example_env 0x200000000 = 2 ^ 30 \<and>
   FastPoisonShadow example_env 0x100000000 0x200000000 0 clean_shadow = Inl ShiftUndefined"
proof -
  have g: "granules example_env 0x200000000 = 2 ^ 30"
    by (simp add: granules_def example_env_simps)
  have b: "shadow_beg_of example_env 0x100000000 = 0x9fff8000"
    by (simp add: shadow_beg_of_def MEM_TO_SHADOW_def example_env_simps drop_bit_eq_div)
  have "aligned_range example_env 0x100000000 0x200000000"
    by (simp add: aligned_range_def example_env_simps)
  moreover have "shadow_fits example_env 0x100000000 0x200000000"
    by (simp add: shadow_fits_def g b)
  ultimately show ?thesis using g by (simp add: FastPoisonShadow_8GiB)
qed

text \<open>
  Claim C4: the code at the failing input. At \<open>i = 30\<close> the next block would start below
  the range start, so the final partial block is due. The shift \<^verbatim>\<open>1 << 31\<close> gives the most
  negative \<^verbatim>\<open>int\<close>, the block start computed from it lies above \<open>shadow_end\<close>, the
  comparison with \<open>shadow_beg\<close> fails, and the loop goes on to the undefined shift: the
  final block at the range start is never filled.
\<close>

theorem FastPoisonShadow_loop_misses_final_block:
  "int_shl1 31 = Some 0xFFFFFFFF80000000 \<and>
   (0xdfff8000 :: uptr) - 0xFFFFFFFF80000000 + 1 = 0x15fff8001 \<and>
   (0x9fff8000 :: uptr) < 0x15fff8001 \<and>
   FastPoisonShadow_loop 0x9fff8000 0xdfff8000 30 clean_shadow = Inl ShiftUndefined"
  by (simp add: int_shl1_31 FastPoisonShadow_loop_from_30)

text \<open>
  Claim C6: the code at the failing input. On the same range the call returns no shadow,
  so the bytes at the first two positions of the range cannot be compared.
\<close>

theorem FastPoisonShadow_8GiB_no_bytes:
  "result_bytes (FastPoisonShadow example_env 0x100000000 0x200000000 0 clean_shadow)
     0x9fff8000 2 = Inl ShiftUndefined"
  by (simp add: FastPoisonShadow_8GiB result_bytes_def)

section \<open>FastPoisonShadowPartialRightRedzone: the bytes of the redzone\<close>

lemma unat_pred_word:
  fixes x :: uptr
  assumes "x \<noteq> 0"
  shows "unat (x - 1) = unat x - 1"
proof -
  have "unat x \<noteq> 0" using assms by (simp add: unat_eq_0)
  then show ?thesis by (simp add: unat_sub_if_size word_size)
qed

lemma redzone_loop_closed:
  assumes s: "shadow_scale e < 64" and bound: "unat rz + 2 ^ shadow_scale e \<le> 2 ^ 64"
  shows "FastPoisonShadowPartialRightRedzone_loop e sz rz tag i p sh =
    Some (\<lambda>a. if unat i + unat (a - p) * 2 ^ shadow_scale e < unat rz
               then redzone_byte e sz tag (i + (a - p) * ASAN_SHADOW_GRANULARITY e)
               else sh a)"
proof (induction "unat rz - unat i" arbitrary: i p sh rule: less_induct)
  case less
  let ?g = "2 ^ shadow_scale e :: nat" and ?G = "ASAN_SHADOW_GRANULARITY e"
  have uG: "unat ?G = ?g" using s by (rule unat_granularity)
  have g0: "0 < ?g" by simp
  show ?case
  proof (cases "i < rz")
    case False
    then have "unat rz \<le> unat i" by (simp add: word_less_nat_alt)
    then have "\<not> unat i + unat (a - p) * ?g < unat rz" for a by simp
    then show ?thesis using False
      by (subst FastPoisonShadowPartialRightRedzone_loop.simps) simp
  next
    case True
    then have lt: "unat i < unat rz" by (simp add: word_less_nat_alt)
    have ui: "unat (i + ?G) = unat i + ?g"
      using lt bound uG by (simp add: unat_plus_if_size word_size)
    have dec: "unat rz - unat (i + ?G) < unat rz - unat i" using ui lt g0 by arith
    have "FastPoisonShadowPartialRightRedzone_loop e sz rz tag i p sh =
        FastPoisonShadowPartialRightRedzone_loop e sz rz tag (i + ?G) (p + 1)
          (sh(p := redzone_byte e sz tag i))"
      using True by (subst FastPoisonShadowPartialRightRedzone_loop.simps) simp
    also have "\<dots> = Some (\<lambda>a. if unat (i + ?G) + unat (a - (p + 1)) * ?g < unat rz
               then redzone_byte e sz tag (i + ?G + (a - (p + 1)) * ?G)
               else (sh(p := redzone_byte e sz tag i)) a)"
      using dec by (rule less.hyps)
    also have "(\<lambda>a. if unat (i + ?G) + unat (a - (p + 1)) * ?g < unat rz
               then redzone_byte e sz tag (i + ?G + (a - (p + 1)) * ?G)
               else (sh(p := redzone_byte e sz tag i)) a) =
        (\<lambda>a. if unat i + unat (a - p) * ?g < unat rz
               then redzone_byte e sz tag (i + (a - p) * ?G) else sh a)"
    proof
      fix a
      show "(if unat (i + ?G) + unat (a - (p + 1)) * ?g < unat rz
               then redzone_byte e sz tag (i + ?G + (a - (p + 1)) * ?G)
               else (sh(p := redzone_byte e sz tag i)) a) =
        (if unat i + unat (a - p) * ?g < unat rz
               then redzone_byte e sz tag (i + (a - p) * ?G) else sh a)"
      proof (cases "a = p")
        case True
        have "unat (- 1 :: uptr) * ?g \<ge> unat (- 1 :: uptr)" using g0 by simp
        moreover have "unat rz \<le> unat (- 1 :: uptr)" by (simp add: word_le_nat_alt [symmetric])
        ultimately have "\<not> unat (i + ?G) + unat (- 1 :: uptr) * ?g < unat rz" by arith
        then show ?thesis using True lt by simp
      next
        case False
        then have nz: "a - p \<noteq> 0" by simp
        have "a - (p + 1) = (a - p) - 1" by simp
        then have "unat (a - (p + 1)) = unat ((a - p) - 1)" by (rule arg_cong)
        then have m: "unat (a - (p + 1)) = unat (a - p) - 1"
          by (simp only: unat_pred_word [OF nz])
        have pos: "0 < unat (a - p)" using nz by (simp add: unat_gt_0)
        have eq1: "unat (i + ?G) + unat (a - (p + 1)) * ?g = unat i + unat (a - p) * ?g"
        proof -
          have "unat (a - p) * ?g = (unat (a - p) - 1) * ?g + ?g"
            using pos by (simp add: diff_mult_distrib)
          then show ?thesis by (simp add: ui m)
        qed
        have eq2: "i + ?G + (a - (p + 1)) * ?G = i + (a - p) * ?G"
          by (simp add: algebra_simps)
        show ?thesis unfolding eq1 eq2 using False by simp
      qed
    qed
    finally show ?thesis .
  qed
qed

lemma ucast_of_unat: "(ucast (w :: uptr) :: u8) = of_nat (unat w)"
  by simp

lemma granularity_pow: "ASAN_SHADOW_GRANULARITY e = 2 ^ shadow_scale e"
  by (simp add: ASAN_SHADOW_GRANULARITY_def)

lemma unat_low_bits:
  fixes w :: uptr
  shows "unat (w AND (2 ^ n - 1)) = unat w mod 2 ^ n"
proof -
  have "w AND (2 ^ n - 1) = take_bit n w"
    by (simp add: take_bit_eq_mask mask_eq_decr_exp)
  then have "unat (w AND (2 ^ n - 1)) = unat (take_bit n w)" by (rule arg_cong)
  also have "\<dots> = take_bit n (unat w)" by (rule unsigned_take_bit_eq)
  also have "\<dots> = unat w mod 2 ^ n" by (rule take_bit_eq_mod)
  finally show ?thesis .
qed

lemma unat_partial_byte:
  assumes s: "shadow_scale e < 64"
  shows "unat (ASAN_SHADOW_GRANULARITY e - (sz AND (ASAN_SHADOW_GRANULARITY e - 1))) =
     2 ^ shadow_scale e - unat sz mod 2 ^ shadow_scale e"
proof -
  let ?g = "2 ^ shadow_scale e :: nat"
  have uG: "unat (ASAN_SHADOW_GRANULARITY e) = ?g" using s by (rule unat_granularity)
  have r: "unat (sz AND (ASAN_SHADOW_GRANULARITY e - 1)) = unat sz mod ?g"
    by (simp only: granularity_pow unat_low_bits)
  have "unat sz mod ?g < ?g" by simp
  then show ?thesis using uG r by (simp add: unat_sub_if_size word_size)
qed

lemma redzone_byte_nat:
  assumes s: "shadow_scale e < 64" and fit: "k * 2 ^ shadow_scale e + 2 ^ shadow_scale e < 2 ^ 64"
  shows "redzone_byte e sz tag (of_nat k * ASAN_SHADOW_GRANULARITY e) =
    (if k * 2 ^ shadow_scale e + 2 ^ shadow_scale e \<le> unat sz then 0
     else if unat sz \<le> k * 2 ^ shadow_scale e then
       (if (2 :: nat) ^ shadow_scale e = 128 then 0xff else tag)
     else if poison_partial e then of_nat (2 ^ shadow_scale e - unat sz mod 2 ^ shadow_scale e)
     else 0)"
proof -
  let ?g = "2 ^ shadow_scale e :: nat" and ?G = "ASAN_SHADOW_GRANULARITY e"
  have uG: "unat ?G = ?g" using s by (rule unat_granularity)
  have kg: "k * ?g < 2 ^ 64" using fit by arith
  have "k \<le> k * ?g" by simp
  then have "k < 2 ^ 64" using kg by (rule le_less_trans)
  then have "unat (of_nat k :: uptr) = k" by (simp add: unat_of_nat)
  then have ui: "unat (of_nat k * ?G) = k * ?g"
    using kg by (simp add: unat_word_ariths(2) uG)
  have uiG: "unat (of_nat k * ?G + ?G) = k * ?g + ?g"
    using fit ui uG by (simp add: unat_plus_if_size word_size)
  have c1: "of_nat k * ?G + ?G \<le> sz \<longleftrightarrow> k * ?g + ?g \<le> unat sz"
    by (simp only: word_le_nat_alt uiG)
  have c2: "sz \<le> of_nat k * ?G \<longleftrightarrow> unat sz \<le> k * ?g"
    by (simp only: word_le_nat_alt ui)
  have c3: "?G = 128 \<longleftrightarrow> ?g = 128"
  proof -
    have "?G = 128 \<longleftrightarrow> unat ?G = unat (128 :: uptr)" by (simp only: word_unat_eq_iff)
    then show ?thesis by (simp add: uG)
  qed
  have c4: "(ucast (?G - (sz AND (?G - 1))) :: u8) = of_nat (?g - unat sz mod ?g)"
    by (simp only: ucast_of_unat unat_partial_byte [OF s])
  show ?thesis
    unfolding redzone_byte_def c1 c2 c3 c4 by simp
qed

text \<open>
  The bound on \<open>redzone_size\<close> below says that the redzone lies in the address space:
  it holds for every redzone \<open>[addr, addr + redzone_size)\<close> that starts at a granule-aligned
  address other than 0 and does not wrap around.
\<close>

lemma redzone_in_address_space:
  assumes "2 ^ shadow_scale e dvd unat addr" and "addr \<noteq> 0"
    and "unat addr + unat redzone_size \<le> 2 ^ 64"
  shows "unat redzone_size + 2 ^ shadow_scale e \<le> 2 ^ 64"
proof -
  have "unat addr \<noteq> 0" using assms(2) by (simp add: unat_eq_0)
  then have "2 ^ shadow_scale e \<le> unat addr" using assms(1) by (intro dvd_imp_le) simp_all
  then show ?thesis using assms(3) by arith
qed

text \<open>
  Claim C5. For a call of \<^verbatim>\<open>FastPoisonShadowPartialRightRedzone\<close> whose redzone lies in
  the address space (\<open>redzone_size\<close> at most \<open>2 ^ 64 - G\<close>) and whose check passes, in a
  debug build, the call returns, and for every granule offset \<open>k * G\<close> below
  \<open>redzone_size\<close> the shadow byte of that granule is: 0 if \<open>k * G + G \<le> size\<close>; \<open>0xff\<close>
  for \<open>G = 128\<close> and the tag otherwise if \<open>k * G \<ge> size\<close>; and else 0 with
  partial-boundary reporting off and \<open>G - size mod G\<close> with it on.
\<close>

theorem FastPoisonShadowPartialRightRedzone_bytes:
  assumes "shadow_scale e < 64" and "unat redzone_size + 2 ^ shadow_scale e \<le> 2 ^ 64"
    and "DCHECK e (can_poison_memory e)" and "k * 2 ^ shadow_scale e < unat redzone_size"
  shows "\<exists>sh'. FastPoisonShadowPartialRightRedzone e addr sz redzone_size tag sh = Some (Inr sh') \<and>
    sh' (MEM_TO_SHADOW e addr + of_nat k) =
      (if k * 2 ^ shadow_scale e + 2 ^ shadow_scale e \<le> unat sz then 0
       else if unat sz \<le> k * 2 ^ shadow_scale e then
         (if (2 :: nat) ^ shadow_scale e = 128 then 0xff else tag)
       else if poison_partial e then of_nat (2 ^ shadow_scale e - unat sz mod 2 ^ shadow_scale e)
       else 0)"
proof -
  let ?g = "2 ^ shadow_scale e :: nat" and ?G = "ASAN_SHADOW_GRANULARITY e"
  let ?p = "MEM_TO_SHADOW e addr"
  define sh' where "sh' = (\<lambda>a. if unat (0 :: uptr) + unat (a - ?p) * ?g < unat redzone_size
               then redzone_byte e sz tag (0 + (a - ?p) * ?G) else sh a)"
  have loop: "FastPoisonShadowPartialRightRedzone_loop e sz redzone_size tag 0 ?p sh = Some sh'"
    unfolding sh'_def using assms(1,2) by (rule redzone_loop_closed)
  have run: "FastPoisonShadowPartialRightRedzone e addr sz redzone_size tag sh = Some (Inr sh')"
    using assms(3) loop by (simp add: FastPoisonShadowPartialRightRedzone_def)
  have "k \<le> k * ?g" by simp
  also have "\<dots> < unat redzone_size" by (rule assms(4))
  also have "\<dots> < 2 ^ 64" using unat_lt64 [of redzone_size] by simp
  finally have kk: "k < 2 ^ 64" .
  then have uk: "unat (of_nat k :: uptr) = k" by (simp add: unat_of_nat)
  have fit: "k * ?g + ?g < 2 ^ 64" using assms(2,4) by arith
  have "sh' (?p + of_nat k) = redzone_byte e sz tag (of_nat k * ?G)"
    using assms(4) by (simp add: sh'_def uk)
  also note redzone_byte_nat [OF assms(1) fit]
  finally show ?thesis using run by blast
qed

theorem FastPoisonShadowPartialRightRedzone_bytes_witness:
  "shadow_scale example_env < 64 \<and> unat (16 :: uptr) + 2 ^ shadow_scale example_env \<le> 2 ^ 64 \<and>
   DCHECK example_env (can_poison_memory example_env) \<and>
   0 * 2 ^ shadow_scale example_env < unat (16 :: uptr) \<and>
   1 * 2 ^ shadow_scale example_env < unat (16 :: uptr) \<and>
   (\<exists>sh'. FastPoisonShadowPartialRightRedzone example_env 0x10000 5 16 0xfa clean_shadow =
       Some (Inr sh') \<and> sh' 0x7fffa000 = 3) \<and>
   (\<exists>sh'. FastPoisonShadowPartialRightRedzone example_env 0x10000 5 16 0xfa clean_shadow =
       Some (Inr sh') \<and> sh' 0x7fffa001 = 0xfa) \<and>
   (\<exists>sh'. FastPoisonShadowPartialRightRedzone (example_env\<lparr>poison_partial := False\<rparr>)
       0x10000 5 16 0xfa clean_shadow = Some (Inr sh') \<and> sh' 0x7fffa000 = 0)"
proof -
  have d: "DCHECK example_env (can_poison_memory example_env)"
    by (simp add: DCHECK_def example_env_simps)
  have d': "DCHECK (example_env\<lparr>poison_partial := False\<rparr>)
      (can_poison_memory (example_env\<lparr>poison_partial := False\<rparr>))"
    by (simp add: DCHECK_def example_env_simps)
  have m: "MEM_TO_SHADOW example_env 0x10000 = 0x7fffa000"
    by (simp add: MEM_TO_SHADOW_def example_env_simps drop_bit_eq_div)
  have m': "MEM_TO_SHADOW (example_env\<lparr>poison_partial := False\<rparr>) 0x10000 = 0x7fffa000"
    by (simp add: MEM_TO_SHADOW_def example_env_simps drop_bit_eq_div)
  have w0: "\<exists>sh'. FastPoisonShadowPartialRightRedzone example_env 0x10000 5 16 0xfa clean_shadow =
       Some (Inr sh') \<and> sh' 0x7fffa000 = 3"
    using FastPoisonShadowPartialRightRedzone_bytes [where e = example_env and redzone_size = 16
        and k = 0 and addr = "0x10000" and sz = 5 and tag = "0xfa" and sh = clean_shadow] d
    by (simp add: m example_env_simps)
  have w1: "\<exists>sh'. FastPoisonShadowPartialRightRedzone example_env 0x10000 5 16 0xfa clean_shadow =
       Some (Inr sh') \<and> sh' 0x7fffa001 = 0xfa"
    using FastPoisonShadowPartialRightRedzone_bytes [where e = example_env and redzone_size = 16
        and k = 1 and addr = "0x10000" and sz = 5 and tag = "0xfa" and sh = clean_shadow] d
    by (simp add: m example_env_simps)
  have w2: "\<exists>sh'. FastPoisonShadowPartialRightRedzone (example_env\<lparr>poison_partial := False\<rparr>)
       0x10000 5 16 0xfa clean_shadow = Some (Inr sh') \<and> sh' 0x7fffa000 = 0"
    using FastPoisonShadowPartialRightRedzone_bytes
      [where e = "example_env\<lparr>poison_partial := False\<rparr>" and redzone_size = 16
        and k = 0 and addr = "0x10000" and sz = 5 and tag = "0xfa" and sh = clean_shadow] d'
    by (simp add: m' example_env_simps)
  show ?thesis using d w0 w1 w2 by (simp add: example_env_simps)
qed

section \<open>The poisoning check\<close>

lemma FastPoisonShadow_loop_no_check:
  "FastPoisonShadow_loop b e i sh \<noteq> Inl CheckFailed"
proof (induction b e i sh rule: FastPoisonShadow_loop.induct)
  case (1 b e i sh)
  show ?case
  proof (cases "int_shl1 (i + 1)")
    case None
    then show ?thesis by (simp add: FastPoisonShadow_loop.simps [of b e i])
  next
    case s1: (Some s1)
    show ?thesis
    proof (cases "int_shl1 i")
      case None
      then show ?thesis using s1 by (simp add: FastPoisonShadow_loop.simps [of b e i] Let_def)
    next
      case s0: (Some s0)
      show ?thesis
      proof (cases "e - s1 + 1 \<le> b")
        case True
        then show ?thesis using s1 s0
          by (simp add: FastPoisonShadow_loop.simps [of b e i] Let_def)
      next
        case False
        from "1.IH" [OF s1 refl False s0] show ?thesis
          using s1 s0 False by (simp add: FastPoisonShadow_loop.simps [of b e i] Let_def)
      qed
    qed
  qed
qed

lemma FastPoisonShadow_checked:
  "DCHECK e (tag = 0 \<or> can_poison_memory e) \<Longrightarrow>
     FastPoisonShadow e addr sz tag sh \<noteq> Inl CheckFailed"
  by (simp add: FastPoisonShadow_def Let_def FastPoisonShadow_loop_no_check)

lemma FastPoisonShadow_env_cong:
  assumes "shadow_scale e1 = shadow_scale e2" "shadow_offset e1 = shadow_offset e2"
    and "DCHECK e1 (tag = 0 \<or> can_poison_memory e1)" "DCHECK e2 (tag = 0 \<or> can_poison_memory e2)"
  shows "FastPoisonShadow e1 addr sz tag sh = FastPoisonShadow e2 addr sz tag sh"
  using assms
  by (simp add: FastPoisonShadow_def MEM_TO_SHADOW_def ASAN_SHADOW_GRANULARITY_def)

lemma redzone_byte_env_cong:
  assumes "shadow_scale e1 = shadow_scale e2" "poison_partial e1 = poison_partial e2"
  shows "redzone_byte e1 = redzone_byte e2"
  using assms by (intro ext) (simp add: redzone_byte_def ASAN_SHADOW_GRANULARITY_def)

lemma redzone_loop_env_Some:
  assumes "FastPoisonShadowPartialRightRedzone_loop e1 sz rz tag i p sh = Some y"
    and "shadow_scale e1 = shadow_scale e2" and "poison_partial e1 = poison_partial e2"
  shows "FastPoisonShadowPartialRightRedzone_loop e2 sz rz tag i p sh = Some y"
proof -
  have "shadow_scale e1 = shadow_scale e2 \<and> poison_partial e1 = poison_partial e2 \<longrightarrow>
      FastPoisonShadowPartialRightRedzone_loop e2 sz rz tag i p sh = Some y"
  proof (rule FastPoisonShadowPartialRightRedzone_loop.raw_induct
    [where P = "\<lambda>e sz rz tag i p sh y.
        shadow_scale e = shadow_scale e2 \<and> poison_partial e = poison_partial e2 \<longrightarrow>
        FastPoisonShadowPartialRightRedzone_loop e2 sz rz tag i p sh = Some y", OF _ assms(1)])
    fix f :: "env \<Rightarrow> uptr \<Rightarrow> uptr \<Rightarrow> u8 \<Rightarrow> uptr \<Rightarrow> uptr \<Rightarrow> shadow \<Rightarrow> shadow option"
      and e sz rz tag i p sh y
    assume IH: "\<And>e sz rz tag i p sh y. f e sz rz tag i p sh = Some y \<Longrightarrow>
        shadow_scale e = shadow_scale e2 \<and> poison_partial e = poison_partial e2 \<longrightarrow>
        FastPoisonShadowPartialRightRedzone_loop e2 sz rz tag i p sh = Some y"
      and step: "(if i < rz
        then f e sz rz tag (i + ASAN_SHADOW_GRANULARITY e) (p + 1)
          (sh(p := redzone_byte e sz tag i))
        else Some sh) = Some y"
    show "shadow_scale e = shadow_scale e2 \<and> poison_partial e = poison_partial e2 \<longrightarrow>
        FastPoisonShadowPartialRightRedzone_loop e2 sz rz tag i p sh = Some y"
    proof
      assume a: "shadow_scale e = shadow_scale e2 \<and> poison_partial e = poison_partial e2"
      then have G: "ASAN_SHADOW_GRANULARITY e = ASAN_SHADOW_GRANULARITY e2"
        by (simp add: ASAN_SHADOW_GRANULARITY_def)
      have rb: "redzone_byte e = redzone_byte e2" using a by (intro redzone_byte_env_cong) simp_all
      show "FastPoisonShadowPartialRightRedzone_loop e2 sz rz tag i p sh = Some y"
      proof (cases "i < rz")
        case True
        with step have "f e sz rz tag (i + ASAN_SHADOW_GRANULARITY e) (p + 1)
          (sh(p := redzone_byte e sz tag i)) = Some y" by simp
        from IH [OF this] a have "FastPoisonShadowPartialRightRedzone_loop e2 sz rz tag
            (i + ASAN_SHADOW_GRANULARITY e2) (p + 1) (sh(p := redzone_byte e2 sz tag i)) = Some y"
          by (simp add: G rb)
        then show ?thesis using True
          by (subst FastPoisonShadowPartialRightRedzone_loop.simps) simp
      next
        case False
        with step show ?thesis
          by (subst FastPoisonShadowPartialRightRedzone_loop.simps) simp
      qed
    qed
  qed
  then show ?thesis using assms(2,3) by simp
qed

lemma redzone_loop_env_cong:
  assumes "shadow_scale e1 = shadow_scale e2" and "poison_partial e1 = poison_partial e2"
  shows "FastPoisonShadowPartialRightRedzone_loop e1 sz rz tag i p sh =
    FastPoisonShadowPartialRightRedzone_loop e2 sz rz tag i p sh"
proof (cases "FastPoisonShadowPartialRightRedzone_loop e1 sz rz tag i p sh")
  case (Some y)
  then show ?thesis using redzone_loop_env_Some [OF Some assms] by simp
next
  case n1: None
  show ?thesis
  proof (cases "FastPoisonShadowPartialRightRedzone_loop e2 sz rz tag i p sh")
    case None
    with n1 show ?thesis by simp
  next
    case (Some y)
    from redzone_loop_env_Some [OF Some assms [symmetric]] n1 show ?thesis by simp
  qed
qed

text \<open>
  Claim C9. In a debug build \<^verbatim>\<open>FastPoisonShadow\<close> ends in the failed check exactly when
  the tag is nonzero and \<^verbatim>\<open>CanPoisonMemory()\<close> is false, and
  \<^verbatim>\<open>FastPoisonShadowPartialRightRedzone\<close> exactly when \<^verbatim>\<open>CanPoisonMemory()\<close> is false.
  In an optimized build neither ever does, and each call gives what the debug build gives
  with poisoning enabled, whatever the toggle says.
\<close>

theorem DCHECK_policy:
  "(FastPoisonShadow (e\<lparr>sanitizer_debug := True\<rparr>) addr sz tag sh = Inl CheckFailed) =
      (tag \<noteq> 0 \<and> \<not> can_poison_memory e) \<and>
   (FastPoisonShadowPartialRightRedzone (e\<lparr>sanitizer_debug := True\<rparr>) addr sz rz tag sh =
      Some (Inl CheckFailed)) = (\<not> can_poison_memory e) \<and>
   FastPoisonShadow (e\<lparr>sanitizer_debug := False\<rparr>) addr sz tag sh =
      FastPoisonShadow (e\<lparr>sanitizer_debug := True, can_poison_memory := True\<rparr>) addr sz tag sh \<and>
   FastPoisonShadowPartialRightRedzone (e\<lparr>sanitizer_debug := False\<rparr>) addr sz rz tag sh =
      FastPoisonShadowPartialRightRedzone (e\<lparr>sanitizer_debug := True, can_poison_memory := True\<rparr>)
        addr sz rz tag sh \<and>
   FastPoisonShadow (e\<lparr>sanitizer_debug := False\<rparr>) addr sz tag sh \<noteq> Inl CheckFailed \<and>
   FastPoisonShadowPartialRightRedzone (e\<lparr>sanitizer_debug := False\<rparr>) addr sz rz tag sh \<noteq>
      Some (Inl CheckFailed)"
proof (intro conjI)
  show "(FastPoisonShadow (e\<lparr>sanitizer_debug := True\<rparr>) addr sz tag sh = Inl CheckFailed) =
      (tag \<noteq> 0 \<and> \<not> can_poison_memory e)"
  proof (cases "tag = 0 \<or> can_poison_memory e")
    case True
    then have "DCHECK (e\<lparr>sanitizer_debug := True\<rparr>)
        (tag = 0 \<or> can_poison_memory (e\<lparr>sanitizer_debug := True\<rparr>))"
      by (simp add: DCHECK_def)
    then have "FastPoisonShadow (e\<lparr>sanitizer_debug := True\<rparr>) addr sz tag sh \<noteq> Inl CheckFailed"
      by (rule FastPoisonShadow_checked)
    then show ?thesis using True by auto
  next
    case False
    then show ?thesis by (simp add: FastPoisonShadow_def DCHECK_def)
  qed
  show "(FastPoisonShadowPartialRightRedzone (e\<lparr>sanitizer_debug := True\<rparr>) addr sz rz tag sh =
      Some (Inl CheckFailed)) = (\<not> can_poison_memory e)"
    by (auto simp: FastPoisonShadowPartialRightRedzone_def DCHECK_def)
  show "FastPoisonShadow (e\<lparr>sanitizer_debug := False\<rparr>) addr sz tag sh =
      FastPoisonShadow (e\<lparr>sanitizer_debug := True, can_poison_memory := True\<rparr>) addr sz tag sh"
    by (rule FastPoisonShadow_env_cong) (simp_all add: DCHECK_def)
  show "FastPoisonShadowPartialRightRedzone (e\<lparr>sanitizer_debug := False\<rparr>) addr sz rz tag sh =
      FastPoisonShadowPartialRightRedzone (e\<lparr>sanitizer_debug := True, can_poison_memory := True\<rparr>)
        addr sz rz tag sh"
    using redzone_loop_env_cong [of "e\<lparr>sanitizer_debug := False\<rparr>"
        "e\<lparr>sanitizer_debug := True, can_poison_memory := True\<rparr>"]
    by (simp add: FastPoisonShadowPartialRightRedzone_def DCHECK_def MEM_TO_SHADOW_def)
  show "FastPoisonShadow (e\<lparr>sanitizer_debug := False\<rparr>) addr sz tag sh \<noteq> Inl CheckFailed"
    by (rule FastPoisonShadow_checked) (simp add: DCHECK_def)
  show "FastPoisonShadowPartialRightRedzone (e\<lparr>sanitizer_debug := False\<rparr>) addr sz rz tag sh \<noteq>
      Some (Inl CheckFailed)"
    by (auto simp: FastPoisonShadowPartialRightRedzone_def DCHECK_def)
qed

section \<open>The values the zero branch stores\<close>

lemma int_shl1_SomeD: "int_shl1 k = Some s \<Longrightarrow> unat k < 32"
  by (auto simp: int_shl1_def word_less_nat_alt split: if_splits)

lemma unat_loop_value:
  assumes "unat i < 32"
  shows "unat (ucast (64 - i :: uptr) :: u8) = 64 - unat i"
proof -
  have "(ucast (64 - of_nat (unat i) :: uptr) :: u8) = of_nat (64 - unat i)"
    using assms by (intro ucast_64_minus) simp
  then have "(ucast (64 - i) :: u8) = of_nat (64 - unat i)" by simp
  moreover have "64 - unat i < 256" by arith
  ultimately show ?thesis by (simp add: unat_of_nat)
qed

lemma loop_value_range:
  assumes "int_shl1 i = Some s"
  shows "33 \<le> unat (ucast (64 - i :: uptr) :: u8) \<and> unat (ucast (64 - i :: uptr) :: u8) \<le> 64"
  using int_shl1_SomeD [OF assms] unat_loop_value [of i] by arith

lemma FastPoisonShadow_loop_stores_range:
  "v \<in> set (FastPoisonShadow_loop_stores b e i) \<Longrightarrow> 33 \<le> unat v \<and> unat v \<le> 64"
proof (induction b e i rule: FastPoisonShadow_loop_stores.induct)
  case (1 b e i)
  show ?case
  proof (cases "int_shl1 (i + 1)")
    case None
    then have "FastPoisonShadow_loop_stores b e i = []"
      by (simp add: FastPoisonShadow_loop_stores.simps [of b e i])
    then show ?thesis using "1.prems" by simp
  next
    case s1: (Some s1)
    show ?thesis
    proof (cases "int_shl1 i")
      case None
      then have "FastPoisonShadow_loop_stores b e i = []"
        using s1 by (simp add: FastPoisonShadow_loop_stores.simps [of b e i] Let_def)
      then show ?thesis using "1.prems" by simp
    next
      case s0: (Some s0)
      note val = loop_value_range [OF s0]
      show ?thesis
      proof (cases "e - s1 + 1 \<le> b")
        case True
        then have "FastPoisonShadow_loop_stores b e i = [ucast (64 - i)]"
          using s1 s0 by (simp add: FastPoisonShadow_loop_stores.simps [of b e i] Let_def)
        then show ?thesis using "1.prems" val by simp
      next
        case False
        then have "FastPoisonShadow_loop_stores b e i =
            ucast (64 - i) # FastPoisonShadow_loop_stores b e (i + 1)"
          using s1 s0 by (simp add: FastPoisonShadow_loop_stores.simps [of b e i] Let_def)
        then have "v = ucast (64 - i) \<or> v \<in> set (FastPoisonShadow_loop_stores b e (i + 1))"
          using "1.prems" by simp
        then show ?thesis using val "1.IH" [OF s1 refl False s0] by auto
      qed
    qed
  qed
qed

lemma FastPoisonShadow_switch_stores_range:
  "v \<in> set (FastPoisonShadow_switch_stores N) \<Longrightarrow> 62 \<le> unat v \<and> unat v \<le> 64"
  by (auto simp: FastPoisonShadow_switch_stores_def split: if_splits)

lemma FastPoisonShadow_zero_stores_range:
  assumes "v \<in> set (FastPoisonShadow_stores e addr sz 0)"
  shows "33 \<le> unat v \<and> unat v \<le> 64"
proof -
  from assms have "v \<in> set (FastPoisonShadow_switch_stores (shadow_end_of e addr sz - shadow_beg_of e addr))
      \<or> v \<in> set (FastPoisonShadow_loop_stores (shadow_beg_of e addr) (shadow_end_of e addr sz) 3)"
    by (auto simp: FastPoisonShadow_stores_def Let_def shadow_beg_of_def shadow_end_of_def
        split: if_splits)
  then show ?thesis
    using FastPoisonShadow_switch_stores_range FastPoisonShadow_loop_stores_range by fastforce
qed

lemma real_memset_cover: "real_memset sh p v n a = sh a \<or> real_memset sh p v n a = v"
  by (simp add: real_memset_def)

lemma FastPoisonShadow_loop_cover:
  "FastPoisonShadow_loop b e i sh = Inr sh' \<Longrightarrow>
     sh' a = sh a \<or> sh' a \<in> set (FastPoisonShadow_loop_stores b e i)"
proof (induction b e i sh rule: FastPoisonShadow_loop.induct)
  case (1 b e i sh)
  show ?case
  proof (cases "int_shl1 (i + 1)")
    case None
    then show ?thesis using "1.prems" by (simp add: FastPoisonShadow_loop.simps [of b e i])
  next
    case s1: (Some s1)
    show ?thesis
    proof (cases "int_shl1 i")
      case None
      then have "FastPoisonShadow_loop b e i sh = Inl ShiftUndefined"
        using s1 by (simp add: FastPoisonShadow_loop.simps [of b e i] Let_def)
      then show ?thesis using "1.prems" by simp
    next
      case s0: (Some s0)
      show ?thesis
      proof (cases "e - s1 + 1 \<le> b")
        case True
        then have "sh' = real_memset sh b (ucast (64 - i)) (e - s0 + 1 - b)"
          using "1.prems" s1 s0 by (simp add: FastPoisonShadow_loop.simps [of b e i] Let_def)
        moreover have "FastPoisonShadow_loop_stores b e i = [ucast (64 - i)]"
          using True s1 s0 by (simp add: FastPoisonShadow_loop_stores.simps [of b e i] Let_def)
        ultimately show ?thesis
          using real_memset_cover [of sh b "ucast (64 - i)" "e - s0 + 1 - b" a] by auto
      next
        case False
        then have run: "FastPoisonShadow_loop b e (i + 1)
            (real_memset sh (e - s1 + 1) (ucast (64 - i)) s0) = Inr sh'"
          using "1.prems" s1 s0 by (simp add: FastPoisonShadow_loop.simps [of b e i] Let_def)
        have st: "FastPoisonShadow_loop_stores b e i =
            ucast (64 - i) # FastPoisonShadow_loop_stores b e (i + 1)"
          using False s1 s0 by (simp add: FastPoisonShadow_loop_stores.simps [of b e i] Let_def)
        from "1.IH" [OF s1 refl False s0 run]
        have "sh' a = real_memset sh (e - s1 + 1) (ucast (64 - i)) s0 a \<or>
            sh' a \<in> set (FastPoisonShadow_loop_stores b e (i + 1))" .
        then show ?thesis
          using real_memset_cover [of sh "e - s1 + 1" "ucast (64 - i)" s0 a] st by auto
      qed
    qed
  qed
qed

lemma FastPoisonShadow_switch_cover:
  "FastPoisonShadow_switch N p sh a = sh a \<or>
     FastPoisonShadow_switch N p sh a \<in> set (FastPoisonShadow_switch_stores N)"
  by (simp add: FastPoisonShadow_switch_def FastPoisonShadow_switch_stores_def)

lemma FastPoisonShadow_zero_cover:
  assumes "FastPoisonShadow e addr sz 0 sh = Inr sh'"
  shows "sh' a = sh a \<or> sh' a \<in> set (FastPoisonShadow_stores e addr sz 0)"
proof -
  let ?b = "shadow_beg_of e addr" and ?e = "shadow_end_of e addr sz"
  let ?N = "?e - ?b"
  note sw = FastPoisonShadow_switch_cover [of ?N ?e sh a]
  show ?thesis
  proof (cases "8 \<le> ?N")
    case True
    then have "FastPoisonShadow_loop ?b ?e 3 (FastPoisonShadow_switch ?N ?e sh) = Inr sh'"
      using assms by (simp add: FastPoisonShadow_zero)
    from FastPoisonShadow_loop_cover [OF this, of a]
    have "sh' a = FastPoisonShadow_switch ?N ?e sh a \<or>
        sh' a \<in> set (FastPoisonShadow_loop_stores ?b ?e 3)" .
    moreover have "FastPoisonShadow_stores e addr sz 0 =
        FastPoisonShadow_switch_stores ?N @ FastPoisonShadow_loop_stores ?b ?e 3"
      using True
      by (simp add: FastPoisonShadow_stores_def DCHECK_def Let_def shadow_beg_of_def shadow_end_of_def)
    ultimately show ?thesis using sw by auto
  next
    case False
    then have "sh' = FastPoisonShadow_switch ?N ?e sh"
      using assms by (simp add: FastPoisonShadow_zero)
    moreover have "FastPoisonShadow_stores e addr sz 0 = FastPoisonShadow_switch_stores ?N"
      using False
      by (simp add: FastPoisonShadow_stores_def DCHECK_def Let_def shadow_beg_of_def shadow_end_of_def)
    ultimately show ?thesis using sw by auto
  qed
qed

text \<open>
  Claim C10. The zero branch never stores the byte 0: every value it stores lies in
  \<open>[1, 64]\<close>, for every range and size, also where the call ends in the undefined shift
  at \<open>2 ^ 30\<close> granules and more. Where the call returns, every byte of the shadow it
  returns is the byte it was given or one of the stored values. And on a granule-aligned
  range of fewer than \<open>2 ^ 30\<close> granules the call returns, with every covered byte in
  \<open>[1, 64]\<close>.
\<close>

theorem FastPoisonShadow_zero_stores_nonzero:
  "list_all (\<lambda>v. 1 \<le> unat v \<and> unat v \<le> 64) (FastPoisonShadow_stores e addr sz 0) \<and>
   (\<forall>sh' a. FastPoisonShadow e addr sz 0 sh = Inr sh' \<longrightarrow>
      sh' a = sh a \<or> sh' a \<in> set (FastPoisonShadow_stores e addr sz 0)) \<and>
   (aligned_range e addr sz \<and> sz \<noteq> 0 \<and> shadow_fits e addr sz \<and> granules e sz < 2 ^ 30 \<longrightarrow>
      (\<exists>sh'. FastPoisonShadow e addr sz 0 sh = Inr sh' \<and>
         (\<forall>k < granules e sz.
            1 \<le> unat (sh' (shadow_beg_of e addr + of_nat k)) \<and>
            unat (sh' (shadow_beg_of e addr + of_nat k)) \<le> 64)))"
proof (intro conjI allI impI)
  show "list_all (\<lambda>v. 1 \<le> unat v \<and> unat v \<le> 64) (FastPoisonShadow_stores e addr sz 0)"
    unfolding list_all_iff
  proof
    fix v assume "v \<in> set (FastPoisonShadow_stores e addr sz 0)"
    then have "33 \<le> unat v \<and> unat v \<le> 64" by (rule FastPoisonShadow_zero_stores_range)
    then show "1 \<le> unat v \<and> unat v \<le> 64" by simp
  qed
next
  fix sh' a
  assume "FastPoisonShadow e addr sz 0 sh = Inr sh'"
  then show "sh' a = sh a \<or> sh' a \<in> set (FastPoisonShadow_stores e addr sz 0)"
    by (rule FastPoisonShadow_zero_cover)
next
  assume h: "aligned_range e addr sz \<and> sz \<noteq> 0 \<and> shadow_fits e addr sz \<and> granules e sz < 2 ^ 30"
  then have ar: "aligned_range e addr sz" and nz: "sz \<noteq> 0" and fits: "shadow_fits e addr sz"
    and small: "granules e sz < 2 ^ 30" by simp_all
  obtain sh' where run: "FastPoisonShadow e addr sz 0 sh = Inr sh'"
    using FastPoisonShadow_zero_gradient [OF ar nz fits small] by simp
  have "1 \<le> unat (sh' (shadow_beg_of e addr + of_nat k)) \<and>
      unat (sh' (shadow_beg_of e addr + of_nat k)) \<le> 64" if k: "k < granules e sz" for k
  proof -
    have "sh' (shadow_beg_of e addr + of_nat k) = gradient_byte (granules e sz - k)"
      using ar nz fits small k run by (rule FastPoisonShadow_zero_at)
    moreover have "35 \<le> unat (gradient_byte (granules e sz - k)) \<and>
        unat (gradient_byte (granules e sz - k)) \<le> 64"
      using small k by (intro gradient_byte_range) simp_all
    ultimately show ?thesis by simp
  qed
  then show "\<exists>sh'. FastPoisonShadow e addr sz 0 sh = Inr sh' \<and>
         (\<forall>k < granules e sz.
            1 \<le> unat (sh' (shadow_beg_of e addr + of_nat k)) \<and>
            unat (sh' (shadow_beg_of e addr + of_nat k)) \<le> 64)"
    using run by blast
qed

theorem FastPoisonShadow_zero_stores_nonzero_witness:
  "aligned_range example_env 0x10000 64 \<and> (64 :: uptr) \<noteq> 0 \<and>
   shadow_fits example_env 0x10000 64 \<and> granules example_env 64 < 2 ^ 30 \<and>
   FastPoisonShadow_stores example_env 0x10000 64 0 = [62, 62, 62, 62, 63, 63, 64, 61] \<and>
   list_all (\<lambda>v. 1 \<le> unat v \<and> unat v \<le> 64) (FastPoisonShadow_stores example_env 0x10000 64 0) \<and>
   (\<exists>sh'. FastPoisonShadow example_env 0x10000 64 0 clean_shadow = Inr sh' \<and>
      1 \<le> unat (sh' 0x7fffa000) \<and> unat (sh' 0x7fffa000) \<le> 64)"
proof -
  have a: "aligned_range example_env 0x10000 64"
    by (simp add: aligned_range_def example_env_simps)
  have g: "granules example_env 64 = 8" by (simp add: granules_def example_env_simps)
  have b: "shadow_beg_of example_env 0x10000 = 0x7fffa000"
    by (simp add: shadow_beg_of_def MEM_TO_SHADOW_def example_env_simps drop_bit_eq_div)
  have f: "shadow_fits example_env 0x10000 64" by (simp add: shadow_fits_def g b)
  have st: "FastPoisonShadow_stores example_env 0x10000 64 0 = [62, 62, 62, 62, 63, 63, 64, 61]"
    by (simp add: FastPoisonShadow_stores_def DCHECK_def MEM_TO_SHADOW_def example_env_simps
        example_granularity drop_bit_eq_div Let_def FastPoisonShadow_switch_stores_def
        FastPoisonShadow_loop_stores.simps int_shl1_def)
  note t = FastPoisonShadow_zero_stores_nonzero [where e = example_env and addr = "0x10000"
      and sz = 64 and sh = clean_shadow]
  from t have l: "list_all (\<lambda>v. 1 \<le> unat v \<and> unat v \<le> 64)
      (FastPoisonShadow_stores example_env 0x10000 64 0)" by (rule conjunct1)
  from t a f g obtain sh' where
    run: "FastPoisonShadow example_env 0x10000 64 0 clean_shadow = Inr sh'" and
    all: "\<forall>k < granules example_env 64.
            1 \<le> unat (sh' (shadow_beg_of example_env 0x10000 + of_nat k)) \<and>
            unat (sh' (shadow_beg_of example_env 0x10000 + of_nat k)) \<le> 64"
    by auto
  have "(0::nat) < granules example_env 64" by (simp add: g)
  with all have "1 \<le> unat (sh' (shadow_beg_of example_env 0x10000 + of_nat 0)) \<and>
      unat (sh' (shadow_beg_of example_env 0x10000 + of_nat 0)) \<le> 64"
    by blast
  then have "1 \<le> unat (sh' 0x7fffa000) \<and> unat (sh' 0x7fffa000) \<le> 64" by (simp add: b)
  with run a f g st l show ?thesis by auto
qed

text \<open>
  The values stored on the 8 GiB range, up to the undefined shift: the seven of the
  switch, and \<open>64 - i\<close> for \<open>i\<close> from 3 to 30.
\<close>

lemma FastPoisonShadow_stores_8GiB:
  "FastPoisonShadow_stores example_env 0x100000000 0x200000000 0 =
     [62, 62, 62, 62, 63, 63, 64,
      61, 60, 59, 58, 57, 56, 55, 54, 53, 52, 51, 50, 49, 48, 47, 46, 45, 44, 43, 42, 41, 40,
      39, 38, 37, 36, 35, 34]"
  by (simp add: FastPoisonShadow_stores_def DCHECK_def MEM_TO_SHADOW_def example_env_simps
      example_granularity drop_bit_eq_div Let_def FastPoisonShadow_switch_stores_def
      FastPoisonShadow_loop_stores.simps int_shl1_def)

section \<open>Calling twice: the total form\<close>





end
